theory Spec2Isabelle
  imports Main
begin

section \<open>HTTP values shared by the adapters\<close>

text \<open>
  Keys and values of a request context. Go's \<^verbatim>\<open>context.WithValue\<close> layers one
  binding over the parent context and \<^verbatim>\<open>Value\<close> returns the innermost binding of
  a key, so a context is the list of its bindings, newest first. The key types of the
  adapters are private to their packages: \<^verbatim>\<open>MockParamsKey\<close> of the mock router,
  \<^verbatim>\<open>fiberCtxKey(name)\<close> of the Fiber adapter, \<^verbatim>\<open>ginParamsKey\<close> of the Gin
  adapter; every other key is an \<open>OtherKey\<close>. A value is a
  \<^verbatim>\<open>map[string]string\<close>, a string, the \<^verbatim>\<open>*gin.Context\<close> of the request, or
  of another type.
\<close>

datatype ctx_key = MockParamsKey | FiberCtxKey string | GinParamsKey | OtherKey string

datatype ctx_value =
    ParamsMap "string \<rightharpoonup> string"
  | StringValue string
  | GinContextValue
  | OtherValue

type_synonym go_context = "(ctx_key \<times> ctx_value) list"

definition WithValue :: "go_context \<Rightarrow> ctx_key \<Rightarrow> ctx_value \<Rightarrow> go_context" where
  "WithValue ctx k v = (k, v) # ctx"

definition Value :: "go_context \<Rightarrow> ctx_key \<Rightarrow> ctx_value option" where
  "Value ctx k = map_of ctx k"

record request =
  Method :: string
  URL_Path :: string
  URL_Query :: "(string \<times> string) list"
  Ctx :: go_context

definition WithContext :: "request \<Rightarrow> go_context \<Rightarrow> request" where
  "WithContext r ctx = r\<lparr>Ctx := ctx\<rparr>"

text \<open>
  The response writer, as \<^verbatim>\<open>httptest.ResponseRecorder\<close> keeps it: the status code,
  the headers, the body written so far and whether the header has been written.
\<close>

record response =
  Code :: nat
  HeaderMap :: "(string \<times> string) list"
  Body :: string
  wroteHeader :: bool

definition NewRecorder :: response where
  "NewRecorder = \<lparr>Code = 200, HeaderMap = [], Body = [], wroteHeader = False\<rparr>"

definition Header_Set :: "string \<Rightarrow> string \<Rightarrow> response \<Rightarrow> response" where
  "Header_Set k v w = w\<lparr>HeaderMap := (k, v) # filter (\<lambda>kv. fst kv \<noteq> k) (HeaderMap w)\<rparr>"

definition WriteHeader :: "nat \<Rightarrow> response \<Rightarrow> response" where
  "WriteHeader c w = (if wroteHeader w then w else w\<lparr>Code := c, wroteHeader := True\<rparr>)"

definition Write :: "string \<Rightarrow> response \<Rightarrow> response" where
  "Write s w = (let w1 = (if wroteHeader w then w else WriteHeader 200 w)
                in w1\<lparr>Body := Body w1 @ s\<rparr>)"

text \<open>
  A handler mutates the writer it is given and either returns or panics; the writer as
  it stands at that moment is part of the outcome, because the caller holds the same
  writer. A middleware is Go's \<^verbatim>\<open>func(http.Handler) http.Handler\<close>.
\<close>

datatype exit = Normal | Panic string

type_synonym result = "response \<times> exit"

type_synonym handler = "request \<Rightarrow> response \<Rightarrow> result"

type_synonym middleware = "handler \<Rightarrow> handler"

text \<open>\<^verbatim>\<open>strings.HasPrefix\<close>, \<^verbatim>\<open>strings.HasSuffix\<close>, \<^verbatim>\<open>strings.TrimSuffix\<close>.\<close>

definition HasPrefix :: "string \<Rightarrow> string \<Rightarrow> bool" where
  "HasPrefix s p = (take (length p) s = p)"

definition HasSuffix :: "string \<Rightarrow> string \<Rightarrow> bool" where
  "HasSuffix s suf = (length suf \<le> length s \<and> drop (length s - length suf) s = suf)"

definition TrimSuffix :: "string \<Rightarrow> string \<Rightarrow> string" where
  "TrimSuffix s suf = (if HasSuffix s suf then take (length s - length suf) s else s)"

section \<open>Onion composition\<close>

text \<open>
  The loop \<^verbatim>\<open>for i := len(mws) - 1; i >= 0; i-- { final = mws[i](final) }\<close> of
  \<^verbatim>\<open>Chain\<close>, \<^verbatim>\<open>MockRouter.register\<close>, \<^verbatim>\<open>NativeAdapter.registerToMux\<close> and
  \<^verbatim>\<open>FiberAdapter.handle\<close>. The counter is \<open>i + 1\<close>, so that the loop stops at 0.
\<close>

fun wrap_loop :: "middleware list \<Rightarrow> nat \<Rightarrow> handler \<Rightarrow> handler" where
  "wrap_loop mws 0 final = final"
| "wrap_loop mws (Suc i) final = wrap_loop mws i ((mws ! i) final)"

definition Chain :: "handler \<Rightarrow> middleware list \<Rightarrow> handler" where
  "Chain h mws = (if length mws = 0 then h else wrap_loop mws (length mws) h)"

text \<open>
  The body of a middleware's handler, as the sequence of its calls of the continuation.
  It returns (or panics) and leaves the writer it was given in a final state; or it calls
  \<^verbatim>\<open>next.ServeHTTP\<close> and goes on from the outcome of that call. \<open>CallNext\<close> is
  the call that hands on the writer the body was given, as written so far: what the
  continuation writes, it writes to that writer. \<open>CallWrapped\<close> is the call that hands
  on a writer of the body's own (a buffer, a wrapper), while the writer it was given
  stays as \<open>own\<close>: the code after the call receives the state of the writer it was
  given together with the outcome on the writer it handed on. \<open>mw_of\<close> is the
  middleware with that body, under net/http, where the continuation writes to the
  writer it is handed.
\<close>

datatype mw_body =
    Return response exit
  | CallNext request response "result \<Rightarrow> mw_body"
  | CallWrapped request response response "response \<times> result \<Rightarrow> mw_body"

type_synonym mw_prog = "request \<Rightarrow> response \<Rightarrow> mw_body"

primrec run_body :: "mw_body \<Rightarrow> handler \<Rightarrow> result" where
  "run_body (Return w e) next = (w, e)"
| "run_body (CallNext r w k) next = run_body (k (next r w)) next"
| "run_body (CallWrapped r own w k) next = run_body (k (own, next r w)) next"

primrec next_calls :: "mw_body \<Rightarrow> handler \<Rightarrow> nat" where
  "next_calls (Return w e) next = 0"
| "next_calls (CallNext r w k) next = Suc (next_calls (k (next r w)) next)"
| "next_calls (CallWrapped r own w k) next = Suc (next_calls (k (own, next r w)) next)"

definition mw_of :: "mw_prog \<Rightarrow> middleware" where
  "mw_of m next = (\<lambda>r w. run_body (m r w) next)"

text \<open>
  A request on its way in through a list of layers, outermost first: the request and
  the writer that the last of them hands to its continuation, and for each layer its
  code that waits for the outcome of the continuation. \<open>None\<close> when one of the
  layers returns without calling its continuation.
\<close>

fun enter_layers ::
  "mw_prog list \<Rightarrow> request \<Rightarrow> response
     \<Rightarrow> (request \<times> response \<times> (result \<Rightarrow> mw_body) list) option" where
  "enter_layers [] r w = Some (r, w, [])"
| "enter_layers (q # qs) r w =
     (case q r w of
        Return w' e \<Rightarrow> None
      | CallNext r' w' k \<Rightarrow>
          map_option (\<lambda>(r1, w1, ks). (r1, w1, k # ks)) (enter_layers qs r' w')
      | CallWrapped r' own w' k \<Rightarrow>
          map_option (\<lambda>(r1, w1, ks). (r1, w1, (\<lambda>res. k (own, res)) # ks)) (enter_layers qs r' w'))"


section \<open>The mock router and the routers' heap\<close>

subsection \<open>Slices\<close>

text \<open>
  A Go slice is a header (pointer to a backing array, length, capacity); two slices
  with the same pointer share their cells. The store maps the address of a backing
  array to the cells written so far; cells beyond them hold nil. \<^verbatim>\<open>append\<close>
  writes in place when the capacity allows and moves the elements to a new, larger
  array otherwise. \<open>growslice_cap\<close> is the capacity the runtime asks for when it
  grows an array by one element (before it rounds the size up to an allocation class).
\<close>

type_synonym addr = nat

record slice =
  ptr :: addr
  len :: nat
  cap :: nat

definition growslice_cap :: "nat \<Rightarrow> nat" where
  "growslice_cap oldCap =
     (if oldCap = 0 then 1
      else if oldCap < 256 then 2 * oldCap
      else oldCap + (oldCap + 768) div 4)"

subsection \<open>Routers\<close>

text \<open>
  A \<^verbatim>\<open>*MockRouter\<close> is the address of a struct with the fields \<^verbatim>\<open>prefix\<close> and
  \<^verbatim>\<open>middlewares\<close>; the field \<^verbatim>\<open>Handlers\<close> of every router made from one
  \<^verbatim>\<open>NewMockRouter\<close> refers to the same map, which the heap holds once. The keys
  of the map are \<^verbatim>\<open>method + " " + fullPath\<close>. A \<^verbatim>\<open>*FiberAdapter\<close> is the
  address of a struct of the same shape: its \<^verbatim>\<open>Middlewares\<close> slice, and its
  \<^verbatim>\<open>Router\<close>, a Fiber group, of which the heap keeps the prefix.
\<close>

record router_struct =
  prefix :: string
  middlewares :: slice

record router_heap =
  Handlers :: "string \<rightharpoonup> handler"
  routers :: "nat \<rightharpoonup> router_struct"
  arrays :: "addr \<rightharpoonup> middleware list"
  next_router :: nat
  next_array :: addr

text \<open>
  The elements \<^verbatim>\<open>sl[0:len]\<close> of a slice, and those of \<^verbatim>\<open>m.middlewares\<close> for a
  router \<open>m\<close>.
\<close>

definition slice_elems :: "router_heap \<Rightarrow> slice \<Rightarrow> middleware list" where
  "slice_elems s sl =
     (case arrays s (ptr sl) of
        None \<Rightarrow> []
      | Some cells \<Rightarrow> take (len sl) cells)"

definition stack :: "router_heap \<Rightarrow> nat \<Rightarrow> middleware list" where
  "stack s m =
     (case routers s m of
        None \<Rightarrow> []
      | Some r \<Rightarrow> slice_elems s (middlewares r))"

definition NewMockRouter :: "nat \<times> router_heap" where
  "NewMockRouter =
     (0, \<lparr>Handlers = Map.empty,
          routers = [0 \<mapsto> \<lparr>prefix = [], middlewares = \<lparr>ptr = 0, len = 0, cap = 0\<rparr>\<rparr>],
          arrays = [0 \<mapsto> []],
          next_router = 1,
          next_array = 1\<rparr>)"

text \<open>
  The two statements that \<^verbatim>\<open>MockRouter.Group\<close> and \<^verbatim>\<open>FiberAdapter.Group\<close> share,
  \<^verbatim>\<open>newMws := make([]Middleware, len(m.middlewares)); copy(newMws, m.middlewares)\<close>,
  followed by the allocation of the child struct with the copy and the child's prefix;
  and the statement \<^verbatim>\<open>m.middlewares = append(m.middlewares, mw)\<close> of the two
  \<^verbatim>\<open>Use\<close>. The methods take the heap and the receiver and give the heap afterwards
  (and the new router, for \<open>Group\<close>); \<open>None\<close> is the nil-pointer panic of a
  receiver that is no router.
\<close>

definition copy_into_child :: "router_heap \<Rightarrow> slice \<Rightarrow> string \<Rightarrow> nat \<times> router_heap" where
  "copy_into_child s sl child_prefix =
     (let n = len sl;
          a = next_array s;
          newMws = \<lparr>ptr = a, len = n, cap = n\<rparr>;
          child = \<lparr>prefix = child_prefix, middlewares = newMws\<rparr>;
          c = next_router s
      in (c, s\<lparr>routers := (routers s)(c \<mapsto> child),
                arrays := (arrays s)(a \<mapsto> slice_elems s sl),
                next_router := Suc c,
                next_array := Suc a\<rparr>))"

definition append_middleware :: "router_heap \<Rightarrow> nat \<Rightarrow> middleware \<Rightarrow> router_heap option" where
  "append_middleware s m mw =
     (case routers s m of
        None \<Rightarrow> None
      | Some r \<Rightarrow>
          (let sl = middlewares r;
               cells = (case arrays s (ptr sl) of None \<Rightarrow> [] | Some cs \<Rightarrow> cs)
           in if len sl < cap sl
              then Some (s\<lparr>arrays := (arrays s)(ptr sl \<mapsto>
                                take (len sl) cells @ [mw] @ drop (Suc (len sl)) cells),
                            routers := (routers s)(m \<mapsto> r\<lparr>middlewares := sl\<lparr>len := Suc (len sl)\<rparr>\<rparr>)\<rparr>)
              else (let a = next_array s
                    in Some (s\<lparr>arrays := (arrays s)(a \<mapsto> take (len sl) cells @ [mw]),
                                routers := (routers s)(m \<mapsto> r\<lparr>middlewares :=
                                   \<lparr>ptr = a, len = Suc (len sl), cap = growslice_cap (cap sl)\<rparr>\<rparr>),
                                next_array := Suc a\<rparr>))))"

definition MockRouter_Group :: "router_heap \<Rightarrow> nat \<Rightarrow> string \<Rightarrow> (nat \<times> router_heap) option" where
  "MockRouter_Group s m path =
     (case routers s m of
        None \<Rightarrow> None
      | Some r \<Rightarrow> Some (copy_into_child s (middlewares r) (prefix r @ path)))"

definition MockRouter_Use :: "router_heap \<Rightarrow> nat \<Rightarrow> middleware \<Rightarrow> router_heap option" where
  "MockRouter_Use s m mw = append_middleware s m mw"

text \<open>
  \<^verbatim>\<open>FiberAdapter.Group\<close>, for the prefix \<open>group_path parent sub\<close> that Fiber's
  \<^verbatim>\<open>Router.Group\<close> gives the new group, and \<^verbatim>\<open>FiberAdapter.Use\<close>, which ignores
  a nil middleware (\<open>None\<close>) before it touches the receiver.
\<close>

definition FiberAdapter_Group ::
  "(string \<Rightarrow> string \<Rightarrow> string) \<Rightarrow> router_heap \<Rightarrow> nat \<Rightarrow> string \<Rightarrow> (nat \<times> router_heap) option" where
  "FiberAdapter_Group group_path s a pfx =
     (case routers s a of
        None \<Rightarrow> None
      | Some r \<Rightarrow> Some (copy_into_child s (middlewares r) (group_path (prefix r) pfx)))"

definition FiberAdapter_Use :: "router_heap \<Rightarrow> nat \<Rightarrow> middleware option \<Rightarrow> router_heap option" where
  "FiberAdapter_Use s a mw =
     (case mw of
        None \<Rightarrow> Some s
      | Some m \<Rightarrow> append_middleware s a m)"

text \<open>
  The root adapter that the Fiber driver constructs, \<^verbatim>\<open>&FiberAdapter{App: app, Router: app}\<close>:
  its \<^verbatim>\<open>Middlewares\<close> is the nil slice, which has no backing array.
\<close>

definition NewFiberAdapter :: "nat \<times> router_heap" where
  "NewFiberAdapter =
     (0, \<lparr>Handlers = Map.empty,
          routers = [0 \<mapsto> \<lparr>prefix = [], middlewares = \<lparr>ptr = 0, len = 0, cap = 0\<rparr>\<rparr>],
          arrays = Map.empty,
          next_router = 1,
          next_array = 1\<rparr>)"

text \<open>
  What setup code keeps true of the heap: routers and backing arrays are allocated
  below the two counters, and no two routers point to the same backing array.
\<close>

definition wf_heap :: "router_heap \<Rightarrow> bool" where
  "wf_heap s =
     ((\<forall>m r. routers s m = Some r \<longrightarrow> m < next_router s \<and> ptr (middlewares r) < next_array s)
      \<and> (\<forall>m m' r r'. routers s m = Some r \<and> routers s m' = Some r'
            \<and> ptr (middlewares r) = ptr (middlewares r') \<longrightarrow> m = m'))"

definition route_key :: "string \<Rightarrow> string \<Rightarrow> string" where
  "route_key method fullPath = method @ '' '' @ fullPath"

definition MockRouter_register ::
  "router_heap \<Rightarrow> nat \<Rightarrow> string \<Rightarrow> string \<Rightarrow> handler \<Rightarrow> router_heap option" where
  "MockRouter_register s m method path h =
     (case routers s m of
        None \<Rightarrow> None
      | Some r \<Rightarrow>
          (let fullPath = prefix r @ path;
               key = route_key method fullPath;
               mws = stack s m;
               finalHandler = wrap_loop mws (length mws) h
           in Some (s\<lparr>Handlers := (Handlers s)(key \<mapsto> finalHandler)\<rparr>)))"

definition MockRouter_GET :: "router_heap \<Rightarrow> nat \<Rightarrow> string \<Rightarrow> handler \<Rightarrow> router_heap option" where
  "MockRouter_GET s m path h = MockRouter_register s m ''GET'' path h"

definition MockRouter_POST :: "router_heap \<Rightarrow> nat \<Rightarrow> string \<Rightarrow> handler \<Rightarrow> router_heap option" where
  "MockRouter_POST s m path h = MockRouter_register s m ''POST'' path h"

definition MockRouter_PUT :: "router_heap \<Rightarrow> nat \<Rightarrow> string \<Rightarrow> handler \<Rightarrow> router_heap option" where
  "MockRouter_PUT s m path h = MockRouter_register s m ''PUT'' path h"

definition MockRouter_DELETE :: "router_heap \<Rightarrow> nat \<Rightarrow> string \<Rightarrow> handler \<Rightarrow> router_heap option" where
  "MockRouter_DELETE s m path h = MockRouter_register s m ''DELETE'' path h"

definition MockRouter_PATCH :: "router_heap \<Rightarrow> nat \<Rightarrow> string \<Rightarrow> handler \<Rightarrow> router_heap option" where
  "MockRouter_PATCH s m path h = MockRouter_register s m ''PATCH'' path h"

definition MockRouter_HEAD :: "router_heap \<Rightarrow> nat \<Rightarrow> string \<Rightarrow> handler \<Rightarrow> router_heap option" where
  "MockRouter_HEAD s m path h = MockRouter_register s m ''HEAD'' path h"

text \<open>
  Setup code as a list of calls, on mock routers or on Fiber adapters; \<open>run_ops\<close>
  performs them in order.
\<close>

datatype setup_op =
    OpGroup nat string
  | OpUse nat middleware
  | OpRegister nat string string handler
  | OpFiberGroup "string \<Rightarrow> string \<Rightarrow> string" nat string
  | OpFiberUse nat "middleware option"

fun run_op :: "router_heap \<Rightarrow> setup_op \<Rightarrow> router_heap option" where
  "run_op s (OpGroup m path) = map_option snd (MockRouter_Group s m path)"
| "run_op s (OpUse m mw) = MockRouter_Use s m mw"
| "run_op s (OpRegister m method path h) = MockRouter_register s m method path h"
| "run_op s (OpFiberGroup group_path a pfx) = map_option snd (FiberAdapter_Group group_path s a pfx)"
| "run_op s (OpFiberUse a mw) = FiberAdapter_Use s a mw"

fun run_ops :: "router_heap \<Rightarrow> setup_op list \<Rightarrow> router_heap option" where
  "run_ops s [] = Some s"
| "run_ops s (op # ops) = (case run_op s op of None \<Rightarrow> None | Some s' \<Rightarrow> run_ops s' ops)"

text \<open>The middlewares that the calls of \<^verbatim>\<open>Use\<close> on router \<open>m\<close> in a list of calls add to it.\<close>

fun uses_on :: "nat \<Rightarrow> setup_op list \<Rightarrow> middleware list" where
  "uses_on m [] = []"
| "uses_on m (OpUse x mw # ops) = (if x = m then mw # uses_on m ops else uses_on m ops)"
| "uses_on m (OpFiberUse x (Some mw) # ops) = (if x = m then mw # uses_on m ops else uses_on m ops)"
| "uses_on m (_ # ops) = uses_on m ops"

subsection \<open>Parameters\<close>

definition MockRouter_Param :: "request \<Rightarrow> string \<Rightarrow> string" where
  "MockRouter_Param r key =
     (case Value (Ctx r) MockParamsKey of
        Some (ParamsMap params) \<Rightarrow> (case params key of Some v \<Rightarrow> v | None \<Rightarrow> [])
      | _ \<Rightarrow> [])"

subsection \<open>Dispatch\<close>

text \<open>
  \<^verbatim>\<open>strings.SplitN(s, sep, n)\<close> and \<^verbatim>\<open>strings.Split(s, sep)\<close> for a separator of
  one character, and \<^verbatim>\<open>http.NotFound\<close>.
\<close>

fun SplitN :: "string \<Rightarrow> char \<Rightarrow> nat \<Rightarrow> string list" where
  "SplitN s sep 0 = []"
| "SplitN s sep (Suc 0) = [s]"
| "SplitN s sep (Suc (Suc n)) =
     (if sep \<in> set s
      then takeWhile (\<lambda>c. c \<noteq> sep) s # SplitN (tl (dropWhile (\<lambda>c. c \<noteq> sep) s)) sep (Suc n)
      else [s])"

fun Split :: "string \<Rightarrow> char \<Rightarrow> string list" where
  "Split [] sep = [[]]"
| "Split (c # cs) sep =
     (if c = sep then [] # Split cs sep
      else (case Split cs sep of [] \<Rightarrow> [[c]] | p # ps \<Rightarrow> (c # p) # ps))"

definition NotFound :: handler where
  "NotFound r w =
     (Write (''404 page not found'' @ [CHR 0x0A])
        (WriteHeader 404
          (Header_Set ''X-Content-Type-Options'' ''nosniff''
            (Header_Set ''Content-Type'' ''text/plain; charset=utf-8'' w))), Normal)"

text \<open>
  The fallback loop \<^verbatim>\<open>for routeKey, h := range m.Handlers\<close>. Go leaves the order of a
  \<^verbatim>\<open>range\<close> over a map unspecified, and it changes from one loop to the next; the
  order of this execution of the loop is the list \<open>order\<close> of the keys.
\<close>

fun fallback_scan :: "(string \<rightharpoonup> handler) \<Rightarrow> string list \<Rightarrow> handler" where
  "fallback_scan H [] r w = NotFound r w"
| "fallback_scan H (routeKey # order) r w =
     (case H routeKey of
        None \<Rightarrow> fallback_scan H order r w
      | Some h \<Rightarrow>
          (let parts = SplitN routeKey CHR '' '' 2
           in if length parts \<noteq> 2 \<or> parts ! 0 \<noteq> Method r then fallback_scan H order r w
              else (let pattern = parts ! 1
                    in if CHR '':'' \<in> set pattern
                       then (let base = hd (Split pattern CHR '':'')
                             in if HasPrefix (URL_Path r) base then h r w
                                else fallback_scan H order r w)
                       else fallback_scan H order r w)))"

definition MockRouter_ServeHTTP :: "router_heap \<Rightarrow> string list \<Rightarrow> handler" where
  "MockRouter_ServeHTTP s order r w =
     (let key = Method r @ '' '' @ URL_Path r
      in case Handlers s key of
           Some handler \<Rightarrow> handler r w
         | None \<Rightarrow> fallback_scan (Handlers s) order r w)"

text \<open>
  The prefix of a router, and the chain \<^verbatim>\<open>m.Group(p1).Group(p2)...\<close> of nested groups.
\<close>

definition prefix_of :: "router_heap \<Rightarrow> nat \<Rightarrow> string option" where
  "prefix_of s m = map_option prefix (routers s m)"


text \<open>
  The test of the fallback loop on one key: the key splits into a method and a pattern,
  the method is the request's, the pattern has a colon, and the text of the pattern
  before its first colon is a prefix of the request's path.
\<close>

definition dynamic_match :: "request \<Rightarrow> string \<Rightarrow> bool" where
  "dynamic_match r routeKey =
     (let parts = SplitN routeKey CHR '' '' 2
      in length parts = 2 \<and> parts ! 0 = Method r \<and> CHR '':'' \<in> set (parts ! 1)
         \<and> HasPrefix (URL_Path r) (hd (Split (parts ! 1) CHR '':'')))"


section \<open>The Fiber adapter\<close>

text \<open>
  What the closure that \<^verbatim>\<open>FiberAdapter.handle\<close> registers reads from and writes to
  its \<^verbatim>\<open>fiber.Ctx\<close>: the request as the adaptor hands it to a net/http handler,
  the route's parameter names (\<^verbatim>\<open>c.Route().Params\<close>, \<open>None\<close> for a nil route),
  the value \<^verbatim>\<open>c.Params(name)\<close> of a name, and the response.
\<close>

record fiber_Ctx =
  fc_Request :: request
  fc_Route :: "string list option"
  fc_Params :: "string \<Rightarrow> string"
  fc_Response :: response

text \<open>\<^verbatim>\<open>c.Status(code)\<close> and \<^verbatim>\<open>c.SendString(body)\<close>, which sets the body.\<close>

definition fc_Status :: "nat \<Rightarrow> fiber_Ctx \<Rightarrow> fiber_Ctx" where
  "fc_Status code c = c\<lparr>fc_Response := (fc_Response c)\<lparr>Code := code\<rparr>\<rparr>"

definition fc_SendString :: "string \<Rightarrow> fiber_Ctx \<Rightarrow> fiber_Ctx" where
  "fc_SendString body c = c\<lparr>fc_Response := (fc_Response c)\<lparr>Body := body\<rparr>\<rparr>"

text \<open>
  \<^verbatim>\<open>adaptor.HTTPHandlerFunc(h)(c)\<close> of Fiber's adaptor package: it runs \<open>h\<close> on
  the converted request with a writer of its own, whose body goes to the response as it
  is written and whose status and headers are copied to the response once \<open>h\<close> has
  returned. A panic of \<open>h\<close> passes through it.
\<close>

definition adaptor_HTTPHandlerFunc :: "handler \<Rightarrow> fiber_Ctx \<Rightarrow> fiber_Ctx \<times> exit" where
  "adaptor_HTTPHandlerFunc h c =
     (case h (fc_Request c) NewRecorder of
        (w, Normal) \<Rightarrow> (c\<lparr>fc_Response := w\<rparr>, Normal)
      | (w, Panic v) \<Rightarrow> (c\<lparr>fc_Response := (fc_Response c)\<lparr>Body := Body w\<rparr>\<rparr>, Panic v))"

text \<open>
  The map \<^verbatim>\<open>params\<close> that the closure fills from the route's names, and the loop
  \<^verbatim>\<open>for k, v := range params\<close> that layers one context value per entry, in the
  order \<open>order\<close> in which this execution of the loop yields the keys.
\<close>

fun fill_params :: "(string \<rightharpoonup> string) \<Rightarrow> string list \<Rightarrow> (string \<Rightarrow> string) \<Rightarrow> (string \<rightharpoonup> string)" where
  "fill_params params [] get = params"
| "fill_params params (name # names) get = fill_params (params(name \<mapsto> get name)) names get"

fun inject_params :: "(string \<rightharpoonup> string) \<Rightarrow> string list \<Rightarrow> go_context \<Rightarrow> go_context" where
  "inject_params params [] ctx = ctx"
| "inject_params params (k # order) ctx =
     (case params k of
        None \<Rightarrow> inject_params params order ctx
      | Some v \<Rightarrow> inject_params params order (WithValue ctx (FiberCtxKey k) (StringValue v)))"

text \<open>
  The closure registered by \<^verbatim>\<open>handle\<close>, for the composed handler: it fills
  \<^verbatim>\<open>params\<close>, runs the composed handler through the adaptor on the request with
  the injected context, and its deferred function recovers a panic and answers 500 with
  the body \<^verbatim>\<open>Panic Detected\<close>.
\<close>

definition closure_params :: "fiber_Ctx \<Rightarrow> (string \<rightharpoonup> string)" where
  "closure_params c =
     (case fc_Route c of
        None \<Rightarrow> Map.empty
      | Some names \<Rightarrow> fill_params Map.empty names (fc_Params c))"

definition FiberAdapter_closure :: "handler \<Rightarrow> string list \<Rightarrow> fiber_Ctx \<Rightarrow> fiber_Ctx \<times> exit" where
  "FiberAdapter_closure composedHandler order c =
     (let params = closure_params c;
          served = adaptor_HTTPHandlerFunc
                     (\<lambda>r w. composedHandler (WithContext r (inject_params params order (Ctx r))) w) c
      in case served of
           (c', Normal) \<Rightarrow> (c', Normal)
         | (c', Panic v) \<Rightarrow> (fc_SendString ''Panic Detected'' (fc_Status 500 c'), Normal))"

text \<open>The request on which the closure runs the composed handler.\<close>

definition closure_request :: "string list \<Rightarrow> fiber_Ctx \<Rightarrow> request" where
  "closure_request order c =
     WithContext (fc_Request c) (inject_params (closure_params c) order (Ctx (fc_Request c)))"

text \<open>
  \<^verbatim>\<open>FiberAdapter.handle\<close>: the route it adds to the Fiber router, for the adapter's
  middlewares \<^verbatim>\<open>a.Middlewares\<close>.
\<close>

definition FiberAdapter_handle ::
  "middleware list \<Rightarrow> string \<Rightarrow> string \<Rightarrow> handler
     \<Rightarrow> string list \<times> string \<times> (string list \<Rightarrow> fiber_Ctx \<Rightarrow> fiber_Ctx \<times> exit)" where
  "FiberAdapter_handle a_Middlewares method path h =
     (let composedHandler = wrap_loop a_Middlewares (length a_Middlewares) h
      in ([method], path, FiberAdapter_closure composedHandler))"

text \<open>\<^verbatim>\<open>FiberAdapter.Param\<close>; the argument is \<open>None\<close> for a nil request.\<close>

definition FiberAdapter_Param :: "request option \<Rightarrow> string \<Rightarrow> string" where
  "FiberAdapter_Param r key =
     (case r of
        None \<Rightarrow> []
      | Some req \<Rightarrow>
          (case Value (Ctx req) (FiberCtxKey key) of
             Some (StringValue val) \<Rightarrow> val
           | _ \<Rightarrow> []))"


section \<open>The Gin adapter\<close>

text \<open>
  The fields of a \<^verbatim>\<open>*gin.Context\<close> that the closure of \<^verbatim>\<open>GinAdapter.Use\<close>
  touches, and the rest of the context (the index into the engine's handler chain and
  what else Gin keeps) as \<open>g_engine\<close>. The standard middleware writes to
  \<^verbatim>\<open>c.Writer\<close>, which is the writer of the whole request.
\<close>

record 'g gin_Context =
  g_Request :: request
  g_Writer :: response
  g_engine :: 'g

text \<open>
  The run of the standard middleware's body inside the closure. Its continuation is
  \<^verbatim>\<open>finalHandler\<close>, which sets \<^verbatim>\<open>called\<close>, stores the request it is given in
  \<^verbatim>\<open>c.Request\<close> and calls \<^verbatim>\<open>c.Next()\<close>; \<open>Next\<close> is Gin's \<^verbatim>\<open>c.Next\<close>, the run
  of the rest of the engine's chain on the context. \<^verbatim>\<open>finalHandler\<close> does not use
  the writer it is handed: the rest of the chain writes to \<^verbatim>\<open>c.Writer\<close>, which is
  the writer the body was given. So a body that hands on the writer it was given sees
  what the rest of the chain wrote, and a body that hands on a writer of its own gets
  that writer back as it was, while the writer it was given has changed.
\<close>

primrec gin_run ::
  "mw_body \<Rightarrow> ('g gin_Context \<Rightarrow> 'g gin_Context \<times> exit) \<Rightarrow> 'g gin_Context \<Rightarrow> bool
     \<Rightarrow> ('g gin_Context \<times> bool) \<times> exit" where
  "gin_run (Return w e) Next c called = ((c\<lparr>g_Writer := w\<rparr>, called), e)"
| "gin_run (CallNext r w k) Next c called =
     (case Next (c\<lparr>g_Writer := w, g_Request := r\<rparr>) of
        (c', e') \<Rightarrow> gin_run (k (g_Writer c', e')) Next c' True)"
| "gin_run (CallWrapped r own w k) Next c called =
     (case Next (c\<lparr>g_Writer := own, g_Request := r\<rparr>) of
        (c', e') \<Rightarrow> gin_run (k (g_Writer c', (w, e'))) Next c' True)"

text \<open>
  The request with the context value that the closure injects, and the closure that
  \<^verbatim>\<open>GinAdapter.Use(mw)\<close> adds to the Gin router, for Gin's
  \<^verbatim>\<open>c.Next\<close> and \<^verbatim>\<open>c.Abort\<close>. The last component of the result says whether the
  closure executed its \<^verbatim>\<open>c.Abort()\<close>. A panic of the middleware leaves the closure
  before the test of \<^verbatim>\<open>called\<close>.
\<close>

definition gin_injected :: "'g gin_Context \<Rightarrow> request" where
  "gin_injected c =
     WithContext (g_Request c) (WithValue (Ctx (g_Request c)) GinParamsKey GinContextValue)"

definition GinAdapter_Use ::
  "mw_prog \<Rightarrow> ('g gin_Context \<Rightarrow> 'g gin_Context \<times> exit) \<Rightarrow> ('g gin_Context \<Rightarrow> 'g gin_Context)
     \<Rightarrow> 'g gin_Context \<Rightarrow> ('g gin_Context \<times> exit) \<times> bool" where
  "GinAdapter_Use mw Next Abort c =
     (case gin_run (mw (gin_injected c) (g_Writer c)) Next c False of
        ((c1, called), Panic v) \<Rightarrow> ((c1, Panic v), False)
      | ((c1, called), Normal) \<Rightarrow>
          (if \<not> called then ((Abort c1, Normal), True) else ((c1, Normal), False)))"


section \<open>The routes of the test suite\<close>

text \<open>
  Handlers and middlewares of \<^verbatim>\<open>setupUniversalRoutes\<close> in the adapters' test: the
  global middleware that sets a header and a context value, the firewall of the
  \<^verbatim>\<open>/protected\<close> group, which answers 403 unless the query has \<^verbatim>\<open>admin=true\<close>,
  and the handlers of \<^verbatim>\<open>/protected/dashboard\<close>, \<^verbatim>\<open>/files/config\<close> and
  \<^verbatim>\<open>/files/:name\<close>, the last reading its parameter through the router's
  \<^verbatim>\<open>Param\<close>.
\<close>

definition mw_powered :: mw_prog where
  "mw_powered r w =
     CallNext (WithContext r (WithValue (Ctx r) (OtherKey ''Trace'') (StringValue ''root'')))
       (Header_Set ''X-Powered-By'' ''Transwarp'' w)
       (\<lambda>(w', e). Return w' e)"

definition mw_firewall :: mw_prog where
  "mw_firewall r w =
     (if map_of (URL_Query r) ''admin'' \<noteq> Some ''true''
      then Return (Write ''bloqueado'' (WriteHeader 403 w)) Normal
      else CallNext r w (\<lambda>(w', e). Return w' e))"

definition h_dashboard :: handler where
  "h_dashboard r w = (Write ''dashboard_data'' (WriteHeader 200 w), Normal)"

definition h_file_config :: handler where
  "h_file_config r w = (Write ''file_config'' (WriteHeader 200 w), Normal)"

definition h_files_name :: "(request \<Rightarrow> string \<Rightarrow> string) \<Rightarrow> handler" where
  "h_files_name Param r w = (Write (''created_'' @ Param r ''name'') (WriteHeader 201 w), Normal)"

text \<open>
  The setup on the mock router up to the creation of the \<^verbatim>\<open>/files\<close> group: the
  root is router 0, \<^verbatim>\<open>/protected\<close> router 1 and \<^verbatim>\<open>/files\<close> router 2.
\<close>

definition setup_groups :: "setup_op list" where
  "setup_groups =
     [OpUse 0 (mw_of mw_powered),
      OpGroup 0 ''/protected'',
      OpUse 1 (mw_of mw_firewall),
      OpRegister 1 ''GET'' ''/dashboard'' h_dashboard,
      OpGroup 0 ''/files'']"

definition GET_request :: "string \<Rightarrow> (string \<times> string) list \<Rightarrow> request" where
  "GET_request path query = \<lparr>Method = ''GET'', URL_Path = path, URL_Query = query, Ctx = []\<rparr>"

text \<open>The same setup with the two routes of the \<^verbatim>\<open>/files\<close> group registered.\<close>

definition setup_routes :: "setup_op list" where
  "setup_routes =
     setup_groups @
     [OpRegister 2 ''GET'' ''/config'' h_file_config,
      OpRegister 2 ''GET'' ''/:name'' (h_files_name MockRouter_Param)]"

text \<open>Two handlers that write their own letter, and one that panics.\<close>

definition h_A :: handler where
  "h_A r w = (Write ''A'' w, Normal)"

definition h_B :: handler where
  "h_B r w = (Write ''B'' w, Normal)"

definition h_boom :: handler where
  "h_boom r w = (w, Panic ''boom'')"

text \<open>
  The handler of \<^verbatim>\<open>/api/echo/:data\<close>, which writes the parameter it reads through
  the router's \<^verbatim>\<open>Param\<close>.
\<close>

definition h_echo :: "(request \<Rightarrow> string \<Rightarrow> string) \<Rightarrow> string \<Rightarrow> handler" where
  "h_echo Param name r w = (Write (Param r name) w, Normal)"

text \<open>
  A middleware that appends to the body once its continuation has returned, and one
  that panics without calling its continuation.
\<close>

definition mw_footer :: mw_prog where
  "mw_footer r w = CallNext r w (\<lambda>(w', e). Return (Write ''!'' w') e)"

definition mw_panics :: mw_prog where
  "mw_panics r w = Return w (Panic ''boom'')"

text \<open>
  A middleware that hands its continuation a recorder of its own and, once the
  continuation has returned, writes the status 202 and \<^verbatim>\<open>wrapped:\<close> followed by
  what the recorder holds to the writer it was given.
\<close>

definition mw_wrapping :: mw_prog where
  "mw_wrapping r w =
     CallWrapped r w NewRecorder
       (\<lambda>(own, (buf, e)). Return (Write (''wrapped:'' @ Body buf) (WriteHeader 202 own)) e)"


section \<open>The driver registry\<close>

text \<open>
  \<^verbatim>\<open>registry\<close> is a package-level map from \<^verbatim>\<open>Driver\<close> (a string) to a
  constructor \<^verbatim>\<open>func() Transwarp\<close>. It starts empty and is filled by the
  \<^verbatim>\<open>init\<close> functions of the driver files the build tags select, each a call of
  \<^verbatim>\<open>Register\<close>. A call of a Go function returns or panics; the panic of
  \<^verbatim>\<open>New\<close> carries the formatted message.
\<close>

type_synonym Driver = string

record Config =
  Driver :: Driver

datatype 'a outcome = Returns 'a | Panics string

type_synonym 'a routerConstructor = "unit \<Rightarrow> 'a outcome"

type_synonym 'a registry = "Driver \<rightharpoonup> 'a routerConstructor"

definition Register :: "'a registry \<Rightarrow> Driver \<Rightarrow> 'a routerConstructor \<Rightarrow> 'a registry" where
  "Register registry d c = registry(d \<mapsto> c)"

text \<open>The registry after the \<^verbatim>\<open>init\<close> functions of the compiled driver files have run, in order.\<close>

fun run_inits :: "'a registry \<Rightarrow> (Driver \<times> 'a routerConstructor) list \<Rightarrow> 'a registry" where
  "run_inits registry [] = registry"
| "run_inits registry ((d, c) # inits) = run_inits (Register registry d c) inits"

definition not_available :: "Driver \<Rightarrow> string" where
  "not_available d =
     ''Transwarp Error: Driver '' @ [CHR 0x27] @ d @ [CHR 0x27]
       @ '' is not available. Did you forget to compile with '' @ [CHR 0x27] @ ''-tags '' @ d
       @ [CHR 0x27] @ ''?''"

definition New :: "'a registry \<Rightarrow> Config \<Rightarrow> 'a outcome" where
  "New registry cfg =
     (case registry (Driver cfg) of
        None \<Rightarrow> Panics (not_available (Driver cfg))
      | Some constructor \<Rightarrow> constructor ())"


section \<open>NativeAdapter: pattern translation and prefix joining\<close>

text \<open>
  \<^verbatim>\<open>paramRegex = `:([a-zA-Z0-9_]+)`\<close> and \<^verbatim>\<open>suffixCleaner = `\}[^/]+`\<close>.
  \<^verbatim>\<open>ReplaceAllString\<close> replaces the successive leftmost matches, each as long as
  its greedy \<^verbatim>\<open>+\<close> allows, and resumes after the match. Both patterns are made of
  ASCII characters and classes, so matching bytes is matching runes. \<open>is_word\<close> is
  the class \<^verbatim>\<open>[a-zA-Z0-9_]\<close>, \<open>not_slash\<close> the class \<^verbatim>\<open>[^/]\<close>.
  \<open>paramReplace\<close> is \<^verbatim>\<open>paramRegex.ReplaceAllString(p, "{$1}")\<close> and
  \<open>suffixClean\<close> is \<^verbatim>\<open>suffixCleaner.ReplaceAllString(s, "}")\<close>.
\<close>

definition is_word :: "char \<Rightarrow> bool" where
  "is_word c = (let n = (of_char c :: nat) in
     (97 \<le> n \<and> n \<le> 122) \<or> (65 \<le> n \<and> n \<le> 90) \<or> (48 \<le> n \<and> n \<le> 57) \<or> n = 95)"

function paramReplace :: "string \<Rightarrow> string" where
  "paramReplace [] = []"
| "paramReplace (c # cs) =
     (if c = CHR '':'' \<and> takeWhile is_word cs \<noteq> []
      then ''{'' @ takeWhile is_word cs @ ''}'' @ paramReplace (dropWhile is_word cs)
      else c # paramReplace cs)"
  by pat_completeness auto
termination
  by (relation "measure length") (auto simp: length_dropWhile_le less_Suc_eq_le)

definition not_slash :: "char \<Rightarrow> bool" where
  "not_slash c = (c \<noteq> CHR ''/'')"

function suffixClean :: "string \<Rightarrow> string" where
  "suffixClean [] = []"
| "suffixClean (c # cs) =
     (if c = CHR ''}'' \<and> takeWhile not_slash cs \<noteq> []
      then ''}'' @ suffixClean (dropWhile not_slash cs)
      else c # suffixClean cs)"
  by pat_completeness auto
termination
  by (relation "measure length") (auto simp: length_dropWhile_le less_Suc_eq_le)

definition transformPattern :: "string \<Rightarrow> string" where
  "transformPattern p =
     (let converted = paramReplace p
      in if CHR ''}'' \<in> set converted then suffixClean converted else converted)"



definition joinPath :: "string \<Rightarrow> string \<Rightarrow> string" where
  "joinPath pfx path =
     (if pfx = [] then path
      else if path = [] \<or> path = ''/'' then pfx
      else (let cleanPrefix = TrimSuffix pfx ''/'';
                cleanPath = (if \<not> HasPrefix path ''/'' then ''/'' @ path else path)
            in cleanPrefix @ cleanPath))"


text \<open>
  The path that \<^verbatim>\<open>NativeAdapter.register\<close> hands to the mux for a verb, and the
  handler that \<^verbatim>\<open>registerToMux\<close> composes for it.
\<close>

definition NativeAdapter_register ::
  "string \<Rightarrow> middleware list \<Rightarrow> string \<Rightarrow> string \<Rightarrow> handler \<Rightarrow> string \<times> handler" where
  "NativeAdapter_register a_prefix a_middlewares method pattern h =
     (let cleanPath = transformPattern pattern;
          fullPath = joinPath a_prefix cleanPath;
          fullPattern = method @ '' '' @ fullPath
      in (fullPattern, wrap_loop a_middlewares (length a_middlewares) h))"




section \<open>The composition loop\<close>

lemma wrap_loop_take:
  "n \<le> length mws \<Longrightarrow> wrap_loop mws n f = foldr (\<lambda>m g. m g) (take n mws) f"
proof (induction n arbitrary: f)
  case 0
  show ?case by simp
next
  case (Suc i)
  then have "take (Suc i) mws = take i mws @ [mws ! i]"
    by (simp add: take_Suc_conv_app_nth)
  with Suc show ?case by simp
qed

lemma wrap_loop_foldr: "wrap_loop mws (length mws) f = foldr (\<lambda>m g. m g) mws f"
  by (simp add: wrap_loop_take)

section \<open>Facts about the mock router's heap\<close>

lemma NewMockRouter_simps:
  "fst NewMockRouter = 0"
  "routers (snd NewMockRouter) = [0 \<mapsto> \<lparr>prefix = [], middlewares = \<lparr>ptr = 0, len = 0, cap = 0\<rparr>\<rparr>]"
  "arrays (snd NewMockRouter) = [0 \<mapsto> []]"
  "Handlers (snd NewMockRouter) = Map.empty"
  "next_router (snd NewMockRouter) = 1"
  "next_array (snd NewMockRouter) = 1"
  by (simp_all add: NewMockRouter_def)

lemma ServeHTTP_exact:
  "Handlers s (Method r @ '' '' @ URL_Path r) = Some h \<Longrightarrow> MockRouter_ServeHTTP s order r w = h r w"
  by (simp add: MockRouter_ServeHTTP_def)

lemma register_effect:
  assumes "prefix_of s m = Some p"
  shows "\<exists>s'. MockRouter_register s m method path h = Some s'
           \<and> Handlers s' = (Handlers s)(route_key method (p @ path) \<mapsto>
                 wrap_loop (stack s m) (length (stack s m)) h)
           \<and> routers s' = routers s \<and> arrays s' = arrays s
           \<and> next_router s' = next_router s \<and> next_array s' = next_array s"
  using assms by (auto simp: MockRouter_register_def prefix_of_def Let_def split: option.splits)

lemma register_frame:
  assumes "MockRouter_register s m method path h = Some s'"
  shows "routers s' = routers s" "arrays s' = arrays s" "stack s' x = stack s x"
    "prefix_of s' x = prefix_of s x" "next_router s' = next_router s" "next_array s' = next_array s"
  using assms
  by (auto simp: MockRouter_register_def stack_def slice_elems_def prefix_of_def Let_def
        split: option.splits)

lemma setup_groups_runs:
  "\<exists>s. run_ops (snd NewMockRouter) setup_groups = Some s
       \<and> prefix_of s 2 = Some ''/files'' \<and> prefix_of s 1 = Some ''/protected''
       \<and> stack s 2 = [mw_of mw_powered] \<and> stack s 1 = [mw_of mw_powered, mw_of mw_firewall]
       \<and> stack s 0 = [mw_of mw_powered]"
  by (simp add: setup_groups_def MockRouter_Use_def append_middleware_def MockRouter_Group_def copy_into_child_def slice_elems_def MockRouter_register_def
        NewMockRouter_simps Let_def stack_def slice_elems_def prefix_of_def growslice_cap_def route_key_def)

lemma wrap_powered:
  "mw_of mw_powered h r w
     = h (WithContext r (WithValue (Ctx r) (OtherKey ''Trace'') (StringValue ''root'')))
         (Header_Set ''X-Powered-By'' ''Transwarp'' w)"
  by (cases "h (WithContext r (WithValue (Ctx r) (OtherKey ''Trace'') (StringValue ''root'')))
         (Header_Set ''X-Powered-By'' ''Transwarp'' w)") (simp add: mw_of_def mw_powered_def)

lemma SplitN_2: "SplitN s sep 2 = (if sep \<in> set s then [takeWhile (\<lambda>c. c \<noteq> sep) s, tl (dropWhile (\<lambda>c. c \<noteq> sep) s)] else [s])"
  by (simp add: numeral_2_eq_2)


lemma setup_routes_runs:
  "\<exists>s. run_ops (snd NewMockRouter) setup_routes = Some s
       \<and> Handlers s = [''GET /protected/dashboard'' \<mapsto> mw_of mw_powered (mw_of mw_firewall h_dashboard),
                        ''GET /files/config'' \<mapsto> mw_of mw_powered h_file_config,
                        ''GET /files/:name'' \<mapsto> mw_of mw_powered (h_files_name MockRouter_Param)]"
  by (simp add: setup_routes_def setup_groups_def MockRouter_Use_def append_middleware_def MockRouter_Group_def copy_into_child_def slice_elems_def
        MockRouter_register_def NewMockRouter_simps Let_def stack_def slice_elems_def prefix_of_def
        growslice_cap_def route_key_def numeral_2_eq_2)



section \<open>Static routes and dynamic routes\<close>

text \<open>
  C1. A static full path \<open>S\<close> (no colon) and a dynamic full path \<open>D\<close> (with a
  colon) registered for the same method, in either order, on any heap: a request for
  that method whose path is \<open>S\<close> is answered by the handler registered for \<open>S\<close>,
  wrapped in the middlewares of the router it was registered on, whatever the order
  in which the fallback loop would visit the keys. More generally, whenever the key of
  the request is in the map, \<open>ServeHTTP\<close> runs the handler stored under it and the
  fallback loop does not run.
\<close>

theorem static_route_wins:
  assumes "prefix_of s x = Some px" "prefix_of s y = Some py"
    and "CHR '':'' \<notin> set (px @ pS)" "CHR '':'' \<in> set (py @ pD)"
    and "Method r = method" "URL_Path r = px @ pS"
  shows "(\<exists>s1 s2.
            run_ops s [OpRegister x method pS hS, OpRegister y method pD hD] = Some s1
          \<and> run_ops s [OpRegister y method pD hD, OpRegister x method pS hS] = Some s2
          \<and> MockRouter_ServeHTTP s1 order r w = wrap_loop (stack s x) (length (stack s x)) hS r w
          \<and> MockRouter_ServeHTTP s2 order r w = wrap_loop (stack s x) (length (stack s x)) hS r w)
         \<and> (Handlers t (Method r @ '' '' @ URL_Path r) = Some h \<longrightarrow>
              MockRouter_ServeHTTP t order r w = h r w)"
proof -
  let ?hS = "wrap_loop (stack s x) (length (stack s x)) hS"
  have ne: "px @ pS \<noteq> py @ pD"
    using assms(3,4) by metis
  have keys: "route_key method (px @ pS) \<noteq> route_key method (py @ pD)"
    using ne by (simp add: route_key_def)
  have rk: "Method r @ '' '' @ URL_Path r = route_key method (px @ pS)"
    using assms(5,6) by (simp add: route_key_def)
  \<comment> \<open>the static route first\<close>
  obtain a where a: "MockRouter_register s x method pS hS = Some a"
    and Ha: "Handlers a = (Handlers s)(route_key method (px @ pS) \<mapsto> ?hS)"
    using register_effect [OF assms(1)] by blast
  have "prefix_of a y = Some py"
    using register_frame(4) [OF a] assms(2) by simp
  then obtain s1 where s1: "MockRouter_register a y method pD hD = Some s1"
    and H1: "Handlers s1 = (Handlers a)(route_key method (py @ pD) \<mapsto>
               wrap_loop (stack a y) (length (stack a y)) hD)"
    using register_effect by blast
  have r1: "run_ops s [OpRegister x method pS hS, OpRegister y method pD hD] = Some s1"
    using a s1 by simp
  have "Handlers s1 (Method r @ '' '' @ URL_Path r) = Some ?hS"
    using H1 Ha keys rk by simp
  then have e1: "MockRouter_ServeHTTP s1 order r w = ?hS r w"
    by (rule ServeHTTP_exact)
  \<comment> \<open>the dynamic route first\<close>
  obtain b where b: "MockRouter_register s y method pD hD = Some b"
    and Hb: "Handlers b = (Handlers s)(route_key method (py @ pD) \<mapsto>
               wrap_loop (stack s y) (length (stack s y)) hD)"
    using register_effect [OF assms(2)] by blast
  have "prefix_of b x = Some px"
    using register_frame(4) [OF b] assms(1) by simp
  then obtain s2 where s2: "MockRouter_register b x method pS hS = Some s2"
    and H2: "Handlers s2 = (Handlers b)(route_key method (px @ pS) \<mapsto>
               wrap_loop (stack b x) (length (stack b x)) hS)"
    using register_effect by blast
  have r2: "run_ops s [OpRegister y method pD hD, OpRegister x method pS hS] = Some s2"
    using b s2 by simp
  have "stack b x = stack s x"
    by (rule register_frame(3) [OF b])
  then have "Handlers s2 (Method r @ '' '' @ URL_Path r) = Some ?hS"
    using H2 rk by simp
  then have e2: "MockRouter_ServeHTTP s2 order r w = ?hS r w"
    by (rule ServeHTTP_exact)
  show ?thesis
    using r1 r2 e1 e2 ServeHTTP_exact [of t r h order w] by blast
qed

theorem static_route_wins_witness:
  "\<exists>s s1 s2.
      run_ops (snd NewMockRouter) setup_groups = Some s
    \<and> run_ops s [OpRegister 2 ''GET'' ''/config'' h_file_config,
                 OpRegister 2 ''GET'' ''/:name'' (h_files_name MockRouter_Param)] = Some s1
    \<and> run_ops s [OpRegister 2 ''GET'' ''/:name'' (h_files_name MockRouter_Param),
                 OpRegister 2 ''GET'' ''/config'' h_file_config] = Some s2
    \<and> MockRouter_ServeHTTP s1 [''GET /files/:name'', ''GET /files/config'', ''GET /protected/dashboard'']
          (GET_request ''/files/config'' []) NewRecorder
        = (\<lparr>Code = 200, HeaderMap = [(''X-Powered-By'', ''Transwarp'')], Body = ''file_config'',
             wroteHeader = True\<rparr>, Normal)
    \<and> MockRouter_ServeHTTP s2 [''GET /files/:name'', ''GET /files/config'', ''GET /protected/dashboard'']
          (GET_request ''/files/config'' []) NewRecorder
        = (\<lparr>Code = 200, HeaderMap = [(''X-Powered-By'', ''Transwarp'')], Body = ''file_config'',
             wroteHeader = True\<rparr>, Normal)"
proof -
  obtain s where s: "run_ops (snd NewMockRouter) setup_groups = Some s"
    and p: "prefix_of s 2 = Some ''/files''" and st: "stack s 2 = [mw_of mw_powered]"
    using setup_groups_runs by blast
  let ?r = "GET_request ''/files/config'' []"
  have colon: "CHR '':'' \<notin> set (''/files'' @ ''/config'')" "CHR '':'' \<in> set (''/files'' @ ''/:name'')"
    by simp_all
  have req: "Method ?r = ''GET''" "URL_Path ?r = ''/files'' @ ''/config''"
    by (simp_all add: GET_request_def)
  have val: "wrap_loop (stack s 2) (length (stack s 2)) h_file_config ?r NewRecorder
      = (\<lparr>Code = 200, HeaderMap = [(''X-Powered-By'', ''Transwarp'')], Body = ''file_config'',
             wroteHeader = True\<rparr>, Normal)"
    by (simp add: st wrap_powered h_file_config_def NewRecorder_def Header_Set_def WriteHeader_def
          Write_def Let_def)
  show ?thesis
    using static_route_wins [OF p p colon req, of h_file_config "h_files_name MockRouter_Param"
        "[''GET /files/:name'', ''GET /files/config'', ''GET /protected/dashboard'']" NewRecorder]
      s val
    by auto
qed


section \<open>Middlewares that do not call their continuation\<close>

lemma gin_run_called: "snd (fst (gin_run b Next c True)) = True"
  by (induction b arbitrary: c) (auto split: prod.splits)

lemma gin_run_CallNext: "snd (fst (gin_run (CallNext r w k) Next c called)) = True"
  by (simp add: gin_run_called split: prod.splits)

lemma gin_run_CallWrapped: "snd (fst (gin_run (CallWrapped r own w k) Next c called)) = True"
  by (simp add: gin_run_called split: prod.splits)

lemma GinAdapter_Use_abort:
  "snd (GinAdapter_Use p Next Abort c) \<longleftrightarrow> (\<exists>w'. p (gin_injected c) (g_Writer c) = Return w' Normal)"
proof (cases "p (gin_injected c) (g_Writer c)")
  case (Return w e)
  then show ?thesis
    by (cases e) (simp_all add: GinAdapter_Use_def)
next
  case (CallNext r w k)
  obtain c1 called e where g: "gin_run (CallNext r w k) Next c False = ((c1, called), e)"
    by (metis prod.exhaust)
  then have "called"
    using gin_run_CallNext [of r w k Next c False] by simp
  then show ?thesis
    using CallNext g by (cases e) (simp_all add: GinAdapter_Use_def)
next
  case (CallWrapped r own w k)
  obtain c1 called e where g: "gin_run (CallWrapped r own w k) Next c False = ((c1, called), e)"
    by (metis prod.exhaust)
  then have "called"
    using gin_run_CallWrapped [of r own w k Next c False] by simp
  then show ?thesis
    using CallWrapped g by (cases e) (simp_all add: GinAdapter_Use_def)
qed

lemma GinAdapter_Use_aborted:
  "p (gin_injected c) (g_Writer c) = Return w' Normal \<Longrightarrow>
     GinAdapter_Use p Next Abort c = ((Abort (c\<lparr>g_Writer := w'\<rparr>), Normal), True)"
  by (simp add: GinAdapter_Use_def)

lemma next_calls_zero: "next_calls b inner = 0 \<longleftrightarrow> (\<exists>w' e. b = Return w' e)"
  by (cases b) auto

lemma wrap_loop_append:
  "wrap_loop (outer @ m # inner) (length (outer @ m # inner)) h
     = wrap_loop outer (length outer) (m (wrap_loop inner (length inner) h))"
  by (simp only: wrap_loop_foldr) simp

lemma wrap_loop_Cons:
  "wrap_loop (m # ms) (length (m # ms)) h = m (wrap_loop ms (length ms) h)"
  by (simp only: wrap_loop_foldr) simp

lemma enter_layers_result:
  assumes "enter_layers outer r w = Some (r1, w1, ks)"
    and "inner r1 w1 = (w', e)"
    and "list_all (\<lambda>k. k (w', e) = Return w' e) ks"
  shows "wrap_loop (map mw_of outer) (length (map mw_of outer)) inner r w = (w', e)"
  using assms
proof (induction outer arbitrary: r w ks)
  case Nil
  then show ?case by simp
next
  case (Cons q qs)
  have step: "wrap_loop (map mw_of (q # qs)) (length (map mw_of (q # qs))) inner
                = mw_of q (wrap_loop (map mw_of qs) (length (map mw_of qs)) inner)"
    using wrap_loop_Cons [of "mw_of q" "map mw_of qs" inner] by simp
  show ?case
  proof (cases "q r w")
    case (Return w0 e0)
    then show ?thesis using Cons.prems(1) by simp
  next
    case (CallNext r' w'' k)
    then obtain ks' where e: "enter_layers qs r' w'' = Some (r1, w1, ks')" and ks: "ks = k # ks'"
      using Cons.prems(1) by auto
    have "wrap_loop (map mw_of qs) (length (map mw_of qs)) inner r' w'' = (w', e)"
      using Cons.IH [OF e Cons.prems(2)] Cons.prems(3) ks by simp
    then show ?thesis
      using CallNext Cons.prems(3) ks unfolding step by (simp add: mw_of_def)
  next
    case (CallWrapped r' own w'' k)
    then obtain ks' where e: "enter_layers qs r' w'' = Some (r1, w1, ks')"
      and ks: "ks = (\<lambda>res. k (own, res)) # ks'"
      using Cons.prems(1) by auto
    have "wrap_loop (map mw_of qs) (length (map mw_of qs)) inner r' w'' = (w', e)"
      using Cons.IH [OF e Cons.prems(2)] Cons.prems(3) ks by simp
    then show ?thesis
      using CallWrapped Cons.prems(3) ks unfolding step by (simp add: mw_of_def)
  qed
qed

lemma wrap_loop_append2:
  "wrap_loop (outer @ inner) (length (outer @ inner)) h
     = wrap_loop outer (length outer) (wrap_loop inner (length inner) h)"
  by (simp only: wrap_loop_foldr) simp

lemma abort_behind_layers:
  assumes "enter_layers outer r w = Some (r1, w1, ks)"
    and "p r1 w1 = Return w' e"
    and "list_all (\<lambda>k. k (w', e) = Return w' e) ks"
  shows "wrap_loop (map mw_of outer @ mw_of p # mws) (length (map mw_of outer @ mw_of p # mws)) h r w
           = (w', e)"
proof -
  have "wrap_loop (mw_of p # mws) (length (mw_of p # mws)) h r1 w1 = (w', e)"
    using assms(2) wrap_loop_Cons [of "mw_of p" mws h] by (simp add: mw_of_def)
  from enter_layers_result [of outer r w r1 w1 ks
      "wrap_loop (mw_of p # mws) (length (mw_of p # mws)) h" w' e, OF assms(1) this assms(3)]
  show ?thesis
    using wrap_loop_append2 [of "map mw_of outer" "mw_of p # mws" h] by simp
qed

text \<open>
  C2, as the code has it. When the body of a middleware returns without calling its
  continuation, that invocation makes no call of what is inside it (the inner layers and
  the terminal handler), whatever they are, and its outcome is the response the
  middleware wrote: this is what the enclosing layer receives from its own continuation
  call. It is the response of the whole chain, and of \<open>ServeHTTP\<close> for a route
  registered with it, whenever the request reaches the middleware through the enclosing
  layers and each of them, given that outcome by its continuation, returns it as it is;
  with no enclosing layer this is the case of the outermost middleware. The chain is
  the outer layers around that middleware around the inner chain. In the Gin adapter the
  closure executes \<open>c.Abort()\<close> exactly when the middleware returned, without a
  panic, and had not called its continuation.
\<close>

theorem abort_short_circuit:
  "(p r w = Return w' e \<longrightarrow>
      mw_of p inner r w = (w', e) \<and> next_calls (p r w) inner = 0
    \<and> wrap_loop (mw_of p # mws) (length (mw_of p # mws)) h r w = (w', e))
   \<and> wrap_loop (outer @ mw_of p # mws) (length (outer @ mw_of p # mws)) h
        = wrap_loop outer (length outer) (mw_of p (wrap_loop mws (length mws) h))
   \<and> (next_calls (p r w) inner = 0 \<longleftrightarrow> (\<exists>w' e. p r w = Return w' e))
   \<and> (MockRouter_register s m method path h = Some s' \<and> stack s m = mw_of p # mws
        \<and> prefix_of s m = Some pfx \<and> Method r = method \<and> URL_Path r = pfx @ path
        \<and> p r w = Return w' e
      \<longrightarrow> MockRouter_ServeHTTP s' order r w = (w', e))
   \<and> (snd (GinAdapter_Use p Next Abort c)
        \<longleftrightarrow> (\<exists>w'. p (gin_injected c) (g_Writer c) = Return w' Normal))
   \<and> (p (gin_injected c) (g_Writer c) = Return w' Normal \<longrightarrow>
        GinAdapter_Use p Next Abort c = ((Abort (c\<lparr>g_Writer := w'\<rparr>), Normal), True))
   \<and> (enter_layers layers r0 w0 = Some (r1, w1, ks) \<and> p r1 w1 = Return w2 e2
        \<and> list_all (\<lambda>k. k (w2, e2) = Return w2 e2) ks
      \<longrightarrow> wrap_loop (map mw_of layers @ mw_of p # mws)
              (length (map mw_of layers @ mw_of p # mws)) h r0 w0 = (w2, e2)
          \<and> next_calls (p r1 w1) inner = 0
          \<and> (MockRouter_register s m method path h = Some s'
               \<and> stack s m = map mw_of layers @ mw_of p # mws
               \<and> prefix_of s m = Some pfx \<and> Method r0 = method \<and> URL_Path r0 = pfx @ path
             \<longrightarrow> MockRouter_ServeHTTP s' order r0 w0 = (w2, e2)))"
proof -
  have local: "mw_of p inner r w = (w', e) \<and> next_calls (p r w) inner = 0
      \<and> wrap_loop (mw_of p # mws) (length (mw_of p # mws)) h r w = (w', e)"
    if "p r w = Return w' e"
  proof -
    have "wrap_loop (mw_of p # mws) (length (mw_of p # mws)) h
            = mw_of p (wrap_loop mws (length mws) h)"
      by (simp only: wrap_loop_foldr) simp
    then show ?thesis
      using that by (simp add: mw_of_def)
  qed
  have served: "MockRouter_ServeHTTP s' order r w = (w', e)"
    if "MockRouter_register s m method path h = Some s'" "stack s m = mw_of p # mws"
      "prefix_of s m = Some pfx" "Method r = method" "URL_Path r = pfx @ path"
      "p r w = Return w' e"
  proof -
    from register_effect [OF that(3), of "method" "path" h] that(1,2)
    have "Handlers s' (route_key method (pfx @ path))
            = Some (wrap_loop (mw_of p # mws) (length (mw_of p # mws)) h)"
      by auto
    then have "Handlers s' (Method r @ '' '' @ URL_Path r)
            = Some (wrap_loop (mw_of p # mws) (length (mw_of p # mws)) h)"
      using that(4,5) by (simp add: route_key_def)
    from ServeHTTP_exact [OF this] local [OF that(6)] show ?thesis
      by simp
  qed
  have behind: "wrap_loop (map mw_of layers @ mw_of p # mws)
              (length (map mw_of layers @ mw_of p # mws)) h r0 w0 = (w2, e2)
          \<and> next_calls (p r1 w1) inner = 0
          \<and> (MockRouter_register s m method path h = Some s'
               \<and> stack s m = map mw_of layers @ mw_of p # mws
               \<and> prefix_of s m = Some pfx \<and> Method r0 = method \<and> URL_Path r0 = pfx @ path
             \<longrightarrow> MockRouter_ServeHTTP s' order r0 w0 = (w2, e2))"
    if reach: "enter_layers layers r0 w0 = Some (r1, w1, ks)" and ret: "p r1 w1 = Return w2 e2"
      and thru: "list_all (\<lambda>k. k (w2, e2) = Return w2 e2) ks"
  proof -
    note chain = abort_behind_layers [of layers r0 w0 r1 w1 ks p w2 e2 mws h, OF reach ret thru]
    have calls: "next_calls (p r1 w1) inner = 0"
      using ret by simp
    have "MockRouter_ServeHTTP s' order r0 w0 = (w2, e2)"
      if reg: "MockRouter_register s m method path h = Some s'"
        and st: "stack s m = map mw_of layers @ mw_of p # mws"
        and pf: "prefix_of s m = Some pfx" and me: "Method r0 = method"
        and pa: "URL_Path r0 = pfx @ path"
    proof -
      from register_effect [OF pf, of "method" "path" h] reg st
      have "Handlers s' (route_key method (pfx @ path))
              = Some (wrap_loop (map mw_of layers @ mw_of p # mws)
                        (length (map mw_of layers @ mw_of p # mws)) h)"
        by auto
      then have "Handlers s' (Method r0 @ '' '' @ URL_Path r0)
              = Some (wrap_loop (map mw_of layers @ mw_of p # mws)
                        (length (map mw_of layers @ mw_of p # mws)) h)"
        using me pa by (simp add: route_key_def)
      from ServeHTTP_exact [OF this] chain show ?thesis
        by simp
    qed
    then show ?thesis
      using chain calls by blast
  qed
  show ?thesis
    using local served wrap_loop_append [of outer "mw_of p" mws h]
      next_calls_zero [of "p r w" inner] GinAdapter_Use_abort [of p Next Abort c]
      GinAdapter_Use_aborted [of p c w' Next Abort] behind
    by blast
qed

text \<open>
  The firewall scenario of the test suite, the firewall behind the global middleware,
  on the mock router and in the Gin closure; and the wrapping middleware under net/http
  and in the Gin closure, where the terminal handler writes to \<open>c.Writer\<close> and not
  to the recorder it is handed.
\<close>

theorem abort_short_circuit_witness:
  "\<exists>s. run_ops (snd NewMockRouter) setup_routes = Some s
     \<and> MockRouter_ServeHTTP s [] (GET_request ''/protected/dashboard'' []) NewRecorder
         = (\<lparr>Code = 403, HeaderMap = [(''X-Powered-By'', ''Transwarp'')], Body = ''bloqueado'',
              wroteHeader = True\<rparr>, Normal)
     \<and> next_calls (mw_firewall (GET_request ''/protected/dashboard'' []) NewRecorder) h_dashboard = 0
     \<and> GinAdapter_Use mw_firewall (\<lambda>c. (c, Normal)) (\<lambda>c. c\<lparr>g_engine := True\<rparr>)
          \<lparr>g_Request = GET_request ''/protected/dashboard'' [], g_Writer = NewRecorder,
           g_engine = False\<rparr>
         = ((\<lparr>g_Request = GET_request ''/protected/dashboard'' [],
              g_Writer = \<lparr>Code = 403, HeaderMap = [], Body = ''bloqueado'', wroteHeader = True\<rparr>,
              g_engine = True\<rparr>, Normal), True)
     \<and> mw_of mw_wrapping h_dashboard (GET_request ''/protected/dashboard'' []) NewRecorder
         = (\<lparr>Code = 202, HeaderMap = [], Body = ''wrapped:dashboard_data'', wroteHeader = True\<rparr>,
            Normal)
     \<and> GinAdapter_Use mw_wrapping
          (\<lambda>c. (c\<lparr>g_Writer := fst (h_dashboard (g_Request c) (g_Writer c))\<rparr>, Normal))
          (\<lambda>c. c\<lparr>g_engine := True\<rparr>)
          \<lparr>g_Request = GET_request ''/protected/dashboard'' [], g_Writer = NewRecorder,
           g_engine = False\<rparr>
         = ((\<lparr>g_Request = gin_injected \<lparr>g_Request = GET_request ''/protected/dashboard'' [],
                                          g_Writer = NewRecorder, g_engine = False\<rparr>,
              g_Writer = \<lparr>Code = 200, HeaderMap = [], Body = ''dashboard_datawrapped:'',
                           wroteHeader = True\<rparr>,
              g_engine = False\<rparr>, Normal), False)"
proof -
  obtain s where s: "run_ops (snd NewMockRouter) setup_routes = Some s"
    and H: "Handlers s = [''GET /protected/dashboard'' \<mapsto> mw_of mw_powered (mw_of mw_firewall h_dashboard),
                        ''GET /files/config'' \<mapsto> mw_of mw_powered h_file_config,
                        ''GET /files/:name'' \<mapsto> mw_of mw_powered (h_files_name MockRouter_Param)]"
    using setup_routes_runs by blast
  let ?r = "GET_request ''/protected/dashboard'' []"
  let ?r1 = "WithContext ?r (WithValue (Ctx ?r) (OtherKey ''Trace'') (StringValue ''root''))"
  let ?w1 = "Header_Set ''X-Powered-By'' ''Transwarp'' NewRecorder"
  let ?w' = "\<lparr>Code = 403, HeaderMap = [(''X-Powered-By'', ''Transwarp'')], Body = ''bloqueado'',
              wroteHeader = True\<rparr>"
  let ?c = "\<lparr>g_Request = ?r, g_Writer = NewRecorder, g_engine = False\<rparr>"
  let ?wg = "\<lparr>Code = 403, HeaderMap = [], Body = ''bloqueado'', wroteHeader = True\<rparr>"
  let ?k = "\<lambda>(w', e). Return w' e"
  have "Handlers s (Method ?r @ '' '' @ URL_Path ?r)
          = Some (wrap_loop (map mw_of [mw_powered] @ mw_of mw_firewall # [])
                    (length (map mw_of [mw_powered] @ mw_of mw_firewall # [])) h_dashboard)"
    by (simp add: H GET_request_def)
  then have served: "MockRouter_ServeHTTP s [] ?r NewRecorder
      = wrap_loop (map mw_of [mw_powered] @ mw_of mw_firewall # [])
          (length (map mw_of [mw_powered] @ mw_of mw_firewall # [])) h_dashboard ?r NewRecorder"
    by (rule ServeHTTP_exact)
  have reach: "enter_layers [mw_powered] ?r NewRecorder = Some (?r1, ?w1, [?k])"
    by (simp add: mw_powered_def)
  have fw: "mw_firewall ?r1 ?w1 = Return ?w' Normal"
    by (simp add: mw_firewall_def GET_request_def WithContext_def NewRecorder_def Header_Set_def
          WriteHeader_def Write_def)
  have thru: "list_all (\<lambda>k. k (?w', Normal) = Return ?w' Normal) [?k]"
    by simp
  have fw0: "mw_firewall ?r NewRecorder = Return ?wg Normal"
    by (simp add: mw_firewall_def GET_request_def NewRecorder_def WriteHeader_def Write_def)
  have fwg: "mw_firewall (gin_injected ?c) (g_Writer ?c) = Return ?wg Normal"
    by (simp add: mw_firewall_def gin_injected_def GET_request_def WithContext_def NewRecorder_def
          WriteHeader_def Write_def)
  note T = abort_short_circuit
  have a: "wrap_loop (map mw_of [mw_powered] @ mw_of mw_firewall # [])
          (length (map mw_of [mw_powered] @ mw_of mw_firewall # [])) h_dashboard ?r NewRecorder
        = (?w', Normal)"
    using T [where p = mw_firewall and layers = "[mw_powered]" and ?r0.0 = ?r and ?w0.0 = NewRecorder
        and ?r1.0 = ?r1 and ?w1.0 = ?w1 and ks = "[?k]" and ?w2.0 = ?w' and ?e2.0 = Normal
        and mws = "[]" and h = h_dashboard, THEN conjunct2, THEN conjunct2, THEN conjunct2,
        THEN conjunct2, THEN conjunct2, THEN conjunct2, THEN mp,
        OF conjI [OF reach conjI [OF fw thru]], THEN conjunct1] .
  have b: "next_calls (mw_firewall ?r NewRecorder) h_dashboard = 0"
    using T [where p = mw_firewall and r = ?r and w = NewRecorder and w' = ?wg and e = Normal
        and inner = h_dashboard, THEN conjunct1, THEN mp, OF fw0, THEN conjunct2,
        THEN conjunct1] .
  have c: "GinAdapter_Use mw_firewall (\<lambda>c. (c, Normal)) (\<lambda>c. c\<lparr>g_engine := True\<rparr>) ?c
             = (((\<lambda>c. c\<lparr>g_engine := True\<rparr>) (?c\<lparr>g_Writer := ?wg\<rparr>), Normal), True)"
    using T [where p = mw_firewall and w' = ?wg and c = ?c and Next = "\<lambda>c. (c, Normal)"
        and Abort = "\<lambda>c. c\<lparr>g_engine := True\<rparr>", THEN conjunct2, THEN conjunct2,
        THEN conjunct2, THEN conjunct2, THEN conjunct2, THEN conjunct1, THEN mp, OF fwg] .
  have d: "mw_of mw_wrapping h_dashboard ?r NewRecorder
         = (\<lparr>Code = 202, HeaderMap = [], Body = ''wrapped:dashboard_data'', wroteHeader = True\<rparr>,
            Normal)"
    by (simp add: mw_of_def mw_wrapping_def h_dashboard_def NewRecorder_def WriteHeader_def Write_def)
  have g: "GinAdapter_Use mw_wrapping
          (\<lambda>c. (c\<lparr>g_Writer := fst (h_dashboard (g_Request c) (g_Writer c))\<rparr>, Normal))
          (\<lambda>c. c\<lparr>g_engine := True\<rparr>) ?c
         = ((\<lparr>g_Request = gin_injected ?c,
              g_Writer = \<lparr>Code = 200, HeaderMap = [], Body = ''dashboard_datawrapped:'',
                           wroteHeader = True\<rparr>,
              g_engine = False\<rparr>, Normal), False)"
    by (simp add: GinAdapter_Use_def mw_wrapping_def h_dashboard_def NewRecorder_def
          WriteHeader_def Write_def)
  show ?thesis
    using s served a b c d g by (intro exI [of _ s]) simp
qed

text \<open>
  An outer middleware that writes after its continuation has returned, around the
  firewall: the firewall answers \<open>bloqueado\<close> without calling its continuation, and
  the response of the chain is \<open>bloqueado!\<close>. And in the Gin adapter a middleware
  that panics without calling its continuation: the closure does not execute
  \<open>c.Abort()\<close>.
\<close>

theorem abort_response_counterexample:
  "(case run_ops (snd NewMockRouter)
           [OpUse 0 (mw_of mw_footer), OpUse 0 (mw_of mw_firewall),
            OpRegister 0 ''GET'' ''/dashboard'' h_dashboard] of
      None \<Rightarrow> False
    | Some s \<Rightarrow>
        mw_firewall (GET_request ''/dashboard'' []) NewRecorder
          = Return \<lparr>Code = 403, HeaderMap = [], Body = ''bloqueado'', wroteHeader = True\<rparr> Normal
      \<and> MockRouter_ServeHTTP s [''GET /dashboard''] (GET_request ''/dashboard'' []) NewRecorder
          = (\<lparr>Code = 403, HeaderMap = [], Body = ''bloqueado!'', wroteHeader = True\<rparr>, Normal))
   \<and> next_calls (mw_panics (GET_request ''/dashboard'' []) NewRecorder) h_dashboard = 0
   \<and> snd (GinAdapter_Use mw_panics (\<lambda>c. (c, Normal)) (\<lambda>c. c\<lparr>g_engine := True\<rparr>)
          \<lparr>g_Request = GET_request ''/dashboard'' [], g_Writer = NewRecorder, g_engine = False\<rparr>)
       = False"
  by (simp add: MockRouter_Use_def append_middleware_def MockRouter_register_def NewMockRouter_simps
        Let_def stack_def slice_elems_def route_key_def growslice_cap_def
        MockRouter_ServeHTTP_def GET_request_def mw_of_def mw_footer_def mw_firewall_def
        mw_panics_def h_dashboard_def GinAdapter_Use_def
        Write_def WriteHeader_def NewRecorder_def)


section \<open>Groups and their middleware stacks\<close>

lemma wf_heap_New: "wf_heap (snd NewMockRouter)"
  by (simp add: wf_heap_def NewMockRouter_simps)

lemma take_Suc_written:
  "take (Suc n) (take n xs @ [y] @ drop (Suc n) xs) = take n xs @ [y]"
  by (cases "n \<le> length xs") (simp_all add: min_def)

lemma copy_into_child_step:
  assumes wf: "wf_heap s" and r: "routers s m = Some r"
    and c: "copy_into_child s (middlewares r) p = (c, s')"
  shows "wf_heap s'" and "stack s' c = stack s m" and "routers s c = None"
    and "routers s x \<noteq> None \<Longrightarrow> stack s' x = stack s x"
    and "routers s x \<noteq> None \<Longrightarrow> routers s' x \<noteq> None \<and> prefix_of s' x = prefix_of s x"
proof -
  have fresh: "\<And>x rx. routers s x = Some rx \<Longrightarrow> x < next_router s \<and> ptr (middlewares rx) < next_array s"
    using wf by (auto simp: wf_heap_def)
  have c_def: "c = next_router s"
    and s': "s' = s\<lparr>routers := (routers s)(c \<mapsto> \<lparr>prefix = p, middlewares =
                       \<lparr>ptr = next_array s, len = len (middlewares r), cap = len (middlewares r)\<rparr>\<rparr>),
                    arrays := (arrays s)(next_array s \<mapsto> slice_elems s (middlewares r)),
                    next_router := Suc c, next_array := Suc (next_array s)\<rparr>"
    using c by (auto simp: copy_into_child_def Let_def)
  show none: "routers s c = None"
    using fresh c_def by (cases "routers s c") auto
  show "stack s' c = stack s m"
    using r by (simp add: s' stack_def slice_elems_def split: option.splits)
  show "stack s' x = stack s x" if nn: "routers s x \<noteq> None"
  proof -
    obtain rx where rx: "routers s x = Some rx" using nn by auto
    then have "x \<noteq> c" "ptr (middlewares rx) \<noteq> next_array s"
      using fresh [OF rx] c_def by auto
    then show ?thesis using rx by (simp add: s' stack_def slice_elems_def)
  qed
  show "routers s' x \<noteq> None \<and> prefix_of s' x = prefix_of s x" if "routers s x \<noteq> None"
    using that none by (auto simp: s' prefix_of_def)
  have f': "x < next_router s' \<and> ptr (middlewares rx) < next_array s'"
    if "routers s' x = Some rx" for x rx
    using that
      using fresh [of x rx] c_def by (auto simp: s' split: if_splits)
  have d': "x = y"
    if "routers s' x = Some rx \<and> routers s' y = Some ry
          \<and> ptr (middlewares rx) = ptr (middlewares ry)" for x y rx ry
  proof -
    have old: "u = v" if "routers s u = Some ru" "routers s v = Some rv"
      "ptr (middlewares ru) = ptr (middlewares rv)" for u v ru rv
      using wf that unfolding wf_heap_def by blast
    have new: "ptr (middlewares ru) \<noteq> next_array s" if "routers s u = Some ru" for u ru
      using fresh [OF that] by simp
    from that show ?thesis
      by (auto simp: s' split: if_splits dest: old new new [symmetric, THEN not_sym])
  qed
  show "wf_heap s'"
    unfolding wf_heap_def using f' d' by blast
qed

lemma append_middleware_step:
  assumes wf: "wf_heap s" and a: "append_middleware s m mw = Some s'"
  shows "wf_heap s'" and "stack s' m = stack s m @ [mw]"
    and "x \<noteq> m \<Longrightarrow> stack s' x = stack s x"
    and "routers s x \<noteq> None \<Longrightarrow> routers s' x \<noteq> None \<and> prefix_of s' x = prefix_of s x"
proof -
  obtain r where r: "routers s m = Some r"
    using a by (auto simp: append_middleware_def split: option.splits)
  let ?sl = "middlewares r"
  let ?cells = "case arrays s (ptr ?sl) of None \<Rightarrow> [] | Some cs \<Rightarrow> cs"
  have fresh: "\<And>x rx. routers s x = Some rx \<Longrightarrow> x < next_router s \<and> ptr (middlewares rx) < next_array s"
    using wf by (auto simp: wf_heap_def)
  have distinct: "\<And>x rx. routers s x = Some rx \<Longrightarrow> x \<noteq> m \<Longrightarrow> ptr (middlewares rx) \<noteq> ptr ?sl"
    using wf r by (auto simp: wf_heap_def)
  have old: "stack s m = take (len ?sl) ?cells"
    using r by (simp add: stack_def slice_elems_def split: option.splits)
  have all: "wf_heap s' \<and> stack s' m = stack s m @ [mw]
        \<and> (x \<noteq> m \<longrightarrow> stack s' x = stack s x) \<and> (routers s x \<noteq> None \<longrightarrow> routers s' x \<noteq> None \<and> prefix_of s' x = prefix_of s x)"
  proof (cases "len ?sl < cap ?sl")
    case True
    then have s': "s' = s\<lparr>arrays := (arrays s)(ptr ?sl \<mapsto>
                                take (len ?sl) ?cells @ [mw] @ drop (Suc (len ?sl)) ?cells),
                            routers := (routers s)(m \<mapsto> r\<lparr>middlewares := ?sl\<lparr>len := Suc (len ?sl)\<rparr>\<rparr>)\<rparr>"
      using a r by (simp add: append_middleware_def Let_def)
    have "stack s' m = take (Suc (len ?sl)) (take (len ?sl) ?cells @ [mw] @ drop (Suc (len ?sl)) ?cells)"
      unfolding s' stack_def slice_elems_def by simp
    also have "\<dots> = take (len ?sl) ?cells @ [mw]"
      by (rule take_Suc_written)
    finally have 1: "stack s' m = stack s m @ [mw]"
      using old by simp
    have 2: "stack s' x = stack s x" if "x \<noteq> m"
    proof (cases "routers s x")
      case None
      then show ?thesis using that by (simp add: s' stack_def)
    next
      case (Some rx)
      then show ?thesis
        using that distinct [OF Some that] by (simp add: s' stack_def slice_elems_def)
    qed
    have 3: "routers s' x \<noteq> None \<and> prefix_of s' x = prefix_of s x" if "routers s x \<noteq> None"
      using that r by (auto simp: s' prefix_of_def)
    have f': "y < next_router s' \<and> ptr (middlewares ry) < next_array s'"
      if "routers s' y = Some ry" for y ry
      using that
        using fresh [of y ry] fresh [OF r] by (auto simp: s' split: if_splits)
    have d': "y = z"
      if "routers s' y = Some ry \<and> routers s' z = Some rz
            \<and> ptr (middlewares ry) = ptr (middlewares rz)" for y z ry rz
    proof -
      have old: "u = v" if "routers s u = Some ru" "routers s v = Some rv"
        "ptr (middlewares ru) = ptr (middlewares rv)" for u v ru rv
        using wf that unfolding wf_heap_def by blast
      from that show ?thesis
        using r by (auto simp: s' split: if_splits dest: old)
    qed
    have 4: "wf_heap s'"
      unfolding wf_heap_def using f' d' by blast
    from 1 2 3 4 show ?thesis
      by blast
  next
    case False
    then have s': "s' = s\<lparr>arrays := (arrays s)(next_array s \<mapsto> take (len ?sl) ?cells @ [mw]),
                          routers := (routers s)(m \<mapsto> r\<lparr>middlewares :=
                             \<lparr>ptr = next_array s, len = Suc (len ?sl), cap = growslice_cap (cap ?sl)\<rparr>\<rparr>),
                          next_array := Suc (next_array s)\<rparr>"
      using a r by (simp add: append_middleware_def Let_def)
    have "stack s' m = take (Suc (len ?sl)) (take (len ?sl) ?cells @ [mw])"
      unfolding s' stack_def slice_elems_def by simp
    then have 1: "stack s' m = stack s m @ [mw]"
      using old by simp
    have 2: "stack s' x = stack s x" if "x \<noteq> m"
    proof (cases "routers s x")
      case None
      then show ?thesis using that by (simp add: s' stack_def)
    next
      case (Some rx)
      then show ?thesis
        using that fresh [OF Some] by (simp add: s' stack_def slice_elems_def)
    qed
    have 3: "routers s' x \<noteq> None \<and> prefix_of s' x = prefix_of s x" if "routers s x \<noteq> None"
      using that r by (auto simp: s' prefix_of_def)
    have f': "y < next_router s' \<and> ptr (middlewares ry) < next_array s'"
      if "routers s' y = Some ry" for y ry
      using that
        using fresh [of y ry] fresh [OF r] by (auto simp: s' split: if_splits)
    have d': "y = z"
      if "routers s' y = Some ry \<and> routers s' z = Some rz
            \<and> ptr (middlewares ry) = ptr (middlewares rz)" for y z ry rz
    proof -
      have old: "u = v" if "routers s u = Some ru" "routers s v = Some rv"
        "ptr (middlewares ru) = ptr (middlewares rv)" for u v ru rv
        using wf that unfolding wf_heap_def by blast
      have new: "ptr (middlewares ru) \<noteq> next_array s" if "routers s u = Some ru" for u ru
        using fresh [OF that] by simp
      from that show ?thesis
        by (auto simp: s' split: if_splits dest: old new new [symmetric, THEN not_sym])
    qed
    have 4: "wf_heap s'"
      unfolding wf_heap_def using f' d' by blast
    from 1 2 3 4 show ?thesis
      by blast
  qed
  from all show "wf_heap s'" "stack s' m = stack s m @ [mw]" "x \<noteq> m \<Longrightarrow> stack s' x = stack s x"
    "routers s x \<noteq> None \<Longrightarrow> routers s' x \<noteq> None \<and> prefix_of s' x = prefix_of s x"
    by blast+
qed


lemma register_wf:
  assumes "wf_heap s" "MockRouter_register s m method path h = Some s'"
  shows "wf_heap s'"
  using assms register_frame(1,5,6) [OF assms(2)] by (simp add: wf_heap_def)

lemma uses_on_Cons: "uses_on x (op # ops) = uses_on x [op] @ uses_on x ops"
  by (induction x "op # ops" rule: uses_on.induct) auto

lemma run_op_step:
  assumes wf: "wf_heap s" and op: "run_op s op = Some s'"
  shows "wf_heap s'
       \<and> (routers s x \<noteq> None \<longrightarrow>
            routers s' x \<noteq> None \<and> prefix_of s' x = prefix_of s x
          \<and> stack s' x = stack s x @ uses_on x [op])"
proof (cases op)
  case (OpGroup m path)
  then obtain r c where r: "routers s m = Some r"
    and c: "copy_into_child s (middlewares r) (prefix r @ path) = (c, s')"
    using op by (auto simp: MockRouter_Group_def split: option.splits)
  show ?thesis
    using copy_into_child_step(1) [OF wf r c] copy_into_child_step(4,5) [OF wf r c, of x] OpGroup by simp
next
  case (OpUse m mw)
  then have a: "append_middleware s m mw = Some s'"
    using op by (simp add: MockRouter_Use_def)
  show ?thesis
    using append_middleware_step(1,2) [OF wf a] append_middleware_step(3,4) [OF wf a, of x] OpUse by (cases "x = m") simp_all
next
  case (OpRegister m verb pattern h)
  then have g: "MockRouter_register s m verb pattern h = Some s'"
    using op by simp
  show ?thesis
    using register_wf [OF wf g] register_frame(1) [OF g] register_frame(3,4) [OF g, of x] OpRegister
    by (simp add: prefix_of_def)
next
  case (OpFiberGroup gp a pfx)
  then obtain r c where r: "routers s a = Some r"
    and c: "copy_into_child s (middlewares r) (gp (prefix r) pfx) = (c, s')"
    using op by (auto simp: FiberAdapter_Group_def split: option.splits)
  show ?thesis
    using copy_into_child_step(1) [OF wf r c] copy_into_child_step(4,5) [OF wf r c, of x] OpFiberGroup by simp
next
  case (OpFiberUse a mw)
  show ?thesis
  proof (cases mw)
    case None
    then show ?thesis using op wf OpFiberUse by (simp add: FiberAdapter_Use_def)
  next
    case (Some m)
    then have ap: "append_middleware s a m = Some s'"
      using op OpFiberUse by (simp add: FiberAdapter_Use_def)
    show ?thesis
      using append_middleware_step(1,2) [OF wf ap] append_middleware_step(3,4) [OF wf ap, of x] OpFiberUse Some by (cases "x = a") simp_all
  qed
qed

lemma run_ops_stack:
  assumes "wf_heap s" "run_ops s ops = Some s'"
  shows "wf_heap s'
       \<and> (routers s x \<noteq> None \<longrightarrow>
            routers s' x \<noteq> None \<and> prefix_of s' x = prefix_of s x
          \<and> stack s' x = stack s x @ uses_on x ops)"
  using assms
proof (induction ops arbitrary: s)
  case Nil
  then show ?case by simp
next
  case (Cons op ops)
  from Cons.prems obtain t where t: "run_op s op = Some t" and rest: "run_ops t ops = Some s'"
    by (auto split: option.splits)
  note step = run_op_step [OF Cons.prems(1) t, of x]
  note ih = Cons.IH [OF conjunct1 [OF step] rest]
  show ?case
    using step ih uses_on_Cons [of x op ops] by auto
qed

lemma wf_heap_NewFiber: "wf_heap (snd NewFiberAdapter)"
  by (simp add: wf_heap_def NewFiberAdapter_def)

text \<open>
  C3. From any heap that setup code has built (on a mock router or on a Fiber adapter),
  \<open>Group\<close> on a router \<open>g\<close> returns a router \<open>c\<close> that did not exist before
  the call, so that it is not \<open>g\<close>, and that exists after it. The child starts with
  the elements of \<open>g\<close>'s stack at that moment, in a backing array of its own: no
  other router's slice points to it. Whatever calls follow, the stack of every
  router that existed then, and of \<open>c\<close>, is its stack at that moment followed by the
  middlewares of the calls of \<open>Use\<close> on that router itself: a \<open>Use\<close> on the child
  changes neither the parent's stack nor a sibling's, and a \<open>Use\<close> on the parent does
  not change the child's. A route registered on \<open>g\<close> afterwards is wrapped by
  \<open>g\<close>'s stack only.
\<close>

theorem Group_copies_stack:
  assumes before: "run_ops (snd NewMockRouter) before = Some s
                   \<or> run_ops (snd NewFiberAdapter) before = Some s"
    and group: "MockRouter_Group s g sub = Some (c, s1)
                \<or> FiberAdapter_Group group_path s g sub = Some (c, s1)"
    and later: "run_ops s1 later = Some s2"
  shows "routers s c = None \<and> c \<noteq> g \<and> routers s1 c \<noteq> None
       \<and> (routers s1 x = Some rx \<and> routers s1 c = Some rc \<and> x \<noteq> c
            \<longrightarrow> ptr (middlewares rx) \<noteq> ptr (middlewares rc))
       \<and> stack s1 c = stack s g
       \<and> stack s2 c = stack s g @ uses_on c later
       \<and> stack s2 g = stack s g @ uses_on g later
       \<and> (routers s x \<noteq> None \<longrightarrow> stack s1 x = stack s x \<and> stack s2 x = stack s x @ uses_on x later)
       \<and> (MockRouter_register s2 g method path h = Some s3 \<longrightarrow>
            (\<exists>p. prefix_of s g = Some p
               \<and> Handlers s3 (route_key method (p @ path))
                   = Some (wrap_loop (stack s g @ uses_on g later)
                             (length (stack s g @ uses_on g later)) h)))"
proof -
  have wf: "wf_heap s"
    using before run_ops_stack [OF wf_heap_New, of before s]
      run_ops_stack [OF wf_heap_NewFiber, of before s] by blast
  obtain r p where r: "routers s g = Some r"
    and c: "copy_into_child s (middlewares r) p = (c, s1)"
    using group
    by (auto simp: MockRouter_Group_def FiberAdapter_Group_def split: option.splits)
  note child = copy_into_child_step [OF wf r c]
  have wf1: "wf_heap s1" by (rule child(1))
  have c1: "routers s1 c \<noteq> None"
    using c by (auto simp: copy_into_child_def Let_def)
  have g1: "routers s1 g \<noteq> None" "prefix_of s1 g = prefix_of s g" "stack s1 g = stack s g"
    using child(4,5) [of g] r by simp_all
  note after = run_ops_stack [OF wf1 later]
  have sc: "stack s2 c = stack s g @ uses_on c later"
    using after [of c] c1 child(2) by simp
  have sg: "stack s2 g = stack s g @ uses_on g later"
    using after [of g] g1 by simp
  have sx: "stack s1 x = stack s x \<and> stack s2 x = stack s x @ uses_on x later" if "routers s x \<noteq> None"
    using after [of x] child(4,5) [of x] that by simp
  have reg: "\<exists>p. prefix_of s g = Some p
               \<and> Handlers s3 (route_key method (p @ path))
                   = Some (wrap_loop (stack s g @ uses_on g later)
                             (length (stack s g @ uses_on g later)) h)"
    if "MockRouter_register s2 g method path h = Some s3"
  proof -
    have "prefix_of s g = Some (prefix r)"
      using r by (simp add: prefix_of_def)
    moreover have "prefix_of s2 g = prefix_of s g"
      using after [of g] g1 by simp
    ultimately have p2: "prefix_of s2 g = Some (prefix r)" by simp
    from register_effect [OF p2, of "method" "path" h] that sg
    have "Handlers s3 (route_key method (prefix r @ path))
            = Some (wrap_loop (stack s g @ uses_on g later)
                      (length (stack s g @ uses_on g later)) h)"
      by auto
    then show ?thesis
      using \<open>prefix_of s g = Some (prefix r)\<close> by blast
  qed
  have new: "routers s c = None \<and> c \<noteq> g \<and> routers s1 c \<noteq> None"
    using child(3) r c1 by auto
  have own: "ptr (middlewares rx) \<noteq> ptr (middlewares rc)"
    if "routers s1 x = Some rx" "routers s1 c = Some rc" "x \<noteq> c"
    using wf1 that unfolding wf_heap_def by blast
  show ?thesis
    using new own child(2) sc sg sx reg by blast
qed


lemma isolation_runs:
  "\<exists>s s1 s2 s3.
      run_ops (snd NewMockRouter) [OpUse 0 (mw_of mw_powered)] = Some s
    \<and> MockRouter_Group s 0 ''/protected'' = Some (1, s1)
    \<and> run_ops s1 [OpUse 1 (mw_of mw_firewall), OpGroup 0 ''/files'', OpUse 1 (mw_of mw_powered)] = Some s2
    \<and> MockRouter_register s2 0 ''GET'' ''/compliance/servehttp'' h_file_config = Some s3
    \<and> stack s 0 = [mw_of mw_powered] \<and> prefix_of s 0 = Some [] \<and> routers s 0 \<noteq> None"
  by (simp add: MockRouter_Use_def append_middleware_def MockRouter_Group_def copy_into_child_def
        slice_elems_def MockRouter_register_def NewMockRouter_simps Let_def stack_def prefix_of_def
        growslice_cap_def route_key_def)

theorem Group_copies_stack_witness:
  "\<exists>s s1 s2 s3.
      run_ops (snd NewMockRouter) [OpUse 0 (mw_of mw_powered)] = Some s
    \<and> MockRouter_Group s 0 ''/protected'' = Some (1, s1)
    \<and> run_ops s1 [OpUse 1 (mw_of mw_firewall), OpGroup 0 ''/files'', OpUse 1 (mw_of mw_powered)] = Some s2
    \<and> MockRouter_register s2 0 ''GET'' ''/compliance/servehttp'' h_file_config = Some s3
    \<and> routers s 1 = None \<and> routers s1 1 \<noteq> None
    \<and> stack s1 1 = [mw_of mw_powered]
    \<and> stack s2 1 = [mw_of mw_powered, mw_of mw_firewall, mw_of mw_powered]
    \<and> stack s2 0 = [mw_of mw_powered]
    \<and> Handlers s3 ''GET /compliance/servehttp'' = Some (mw_of mw_powered h_file_config)"
proof -
  obtain s s1 s2 s3 where
    b: "run_ops (snd NewMockRouter) [OpUse 0 (mw_of mw_powered)] = Some s"
    and g: "MockRouter_Group s 0 ''/protected'' = Some (1, s1)"
    and l: "run_ops s1 [OpUse 1 (mw_of mw_firewall), OpGroup 0 ''/files'', OpUse 1 (mw_of mw_powered)] = Some s2"
    and reg: "MockRouter_register s2 0 ''GET'' ''/compliance/servehttp'' h_file_config = Some s3"
    and st: "stack s 0 = [mw_of mw_powered]" and p: "prefix_of s 0 = Some []"
    using isolation_runs by blast
  have "routers s 1 = None \<and> routers s1 1 \<noteq> None
     \<and> stack s1 1 = [mw_of mw_powered]
     \<and> stack s2 1 = [mw_of mw_powered, mw_of mw_firewall, mw_of mw_powered]
     \<and> stack s2 0 = [mw_of mw_powered]
     \<and> Handlers s3 ''GET /compliance/servehttp'' = Some (mw_of mw_powered h_file_config)"
    using Group_copies_stack [OF disjI1 [OF b] disjI1 [OF g] l,
        where x = 0 and h = h_file_config and ?s3.0 = s3,
        of _ _ "''GET''" "''/compliance/servehttp''"] reg st p
    by (simp add: route_key_def)
  then show ?thesis
    using b g l reg by blast
qed


section \<open>Composition order\<close>

text \<open>
  C4. The chain built from the middlewares \<open>[m1, ..., mn]\<close> around \<open>h\<close> is the right
  fold \<open>m1 (m2 (... (mn h)))\<close>, with no middleware it is \<open>h\<close> itself, and the first
  middleware is the outermost layer: a request is handled by the body of \<open>m1\<close>, and
  when that body calls its continuation, the whole rest of the chain runs inside the
  call and the code of \<open>m1\<close> after the call receives its outcome. The handlers that
  \<open>NativeAdapter.registerToMux\<close> and \<open>MockRouter.register\<close> store are the same fold
  of the router's middlewares.
\<close>

theorem Chain_onion:
  "Chain h mws = foldr (\<lambda>m g. m g) mws h
   \<and> Chain h [] = h
   \<and> Chain h (m1 # ms) = m1 (Chain h ms)
   \<and> Chain h (mw_of p # ms) r w =
       (case p r w of
          Return w' e \<Rightarrow> (w', e)
        | CallNext r' w' k \<Rightarrow> run_body (k (Chain h ms r' w')) (Chain h ms)
        | CallWrapped r' own w' k \<Rightarrow> run_body (k (own, Chain h ms r' w')) (Chain h ms))
   \<and> snd (NativeAdapter_register a_prefix mws verb pattern h) = foldr (\<lambda>m g. m g) mws h
   \<and> MockRouter_register s m verb pattern h =
        map_option (\<lambda>r. s\<lparr>Handlers := (Handlers s)(route_key verb (prefix r @ pattern) \<mapsto>
                                foldr (\<lambda>m g. m g) (stack s m) h)\<rparr>) (routers s m)"
proof -
  have fold: "Chain h xs = foldr (\<lambda>m g. m g) xs h" for xs
    by (simp add: Chain_def wrap_loop_foldr)
  have native: "snd (NativeAdapter_register a_prefix mws verb pattern h) = foldr (\<lambda>m g. m g) mws h"
    by (simp add: NativeAdapter_register_def Let_def wrap_loop_foldr)
  have mock: "MockRouter_register s m verb pattern h =
        map_option (\<lambda>r. s\<lparr>Handlers := (Handlers s)(route_key verb (prefix r @ pattern) \<mapsto>
                                foldr (\<lambda>m g. m g) (stack s m) h)\<rparr>) (routers s m)"
    by (simp add: MockRouter_register_def Let_def wrap_loop_foldr split: option.splits)
  show ?thesis
    using native mock by (simp add: fold mw_of_def split: mw_body.split)
qed


section \<open>Parameters\<close>

lemma fill_params_eq:
  "fill_params params names get = (\<lambda>k. if k \<in> set names then Some (get k) else params k)"
  by (induction names arbitrary: params) (auto simp: fun_eq_iff)

lemma Value_WithValue: "Value (WithValue ctx k' v) k = (if k = k' then Some v else Value ctx k)"
  by (simp add: Value_def WithValue_def)

lemma Value_inject_params:
  "Value (inject_params params order ctx) (FiberCtxKey k)
     = (if k \<in> set order \<and> params k \<noteq> None then map_option StringValue (params k)
        else Value ctx (FiberCtxKey k))"
proof (induction order arbitrary: ctx)
  case Nil
  show ?case by simp
next
  case (Cons x xs)
  show ?case
    by (cases "params x") (auto simp: Cons Value_WithValue)
qed

lemma FiberAdapter_Param_injected:
  assumes "set order = dom params" "\<forall>k. Value ctx (FiberCtxKey k) = None"
  shows "FiberAdapter_Param (Some (WithContext r (inject_params params order ctx))) name
           = (case params name of Some v \<Rightarrow> v | None \<Rightarrow> [])"
  using assms
  by (auto simp: FiberAdapter_Param_def WithContext_def Value_inject_params split: option.splits)

text \<open>
  C5. On a request whose context carries the binding, \<open>Param\<close> returns the string
  bound to the name and the empty string for a name that is not bound; with no binding
  in the context it returns the empty string. For the mock router the binding is the map
  under \<open>MockParamsKey\<close>; for the Fiber adapter it is one context value per entry of
  the closure's map, whatever the order in which the loop over that map layers them, on
  a context that has no value of the adapter's private key type beforehand. Through the
  Fiber closure, a handler that echoes a parameter answers with the value the route
  captured for it.
\<close>

theorem Param_returns_binding:
  "MockRouter_Param (WithContext r (WithValue ctx MockParamsKey (ParamsMap params))) name
      = (case params name of Some v \<Rightarrow> v | None \<Rightarrow> [])
   \<and> (Value (Ctx r) MockParamsKey = None \<longrightarrow> MockRouter_Param r name = [])
   \<and> (set order = dom params \<and> (\<forall>k. Value ctx (FiberCtxKey k) = None) \<longrightarrow>
        FiberAdapter_Param (Some (WithContext r (inject_params params order ctx))) name
          = (case params name of Some v \<Rightarrow> v | None \<Rightarrow> []))
   \<and> FiberAdapter_Param None name = []
   \<and> (Value (Ctx r) (FiberCtxKey name) = None \<longrightarrow> FiberAdapter_Param (Some r) name = [])
   \<and> (fc_Route c = Some names \<and> set order = set names
        \<and> (\<forall>k. Value (Ctx (fc_Request c)) (FiberCtxKey k) = None) \<longrightarrow>
        FiberAdapter_closure (h_echo (\<lambda>r. FiberAdapter_Param (Some r)) name) order c
          = (c\<lparr>fc_Response := Write (if name \<in> set names then fc_Params c name else []) NewRecorder\<rparr>,
             Normal))"
proof -
  have mock: "MockRouter_Param (WithContext r (WithValue ctx MockParamsKey (ParamsMap params))) name
      = (case params name of Some v \<Rightarrow> v | None \<Rightarrow> [])"
    by (simp add: MockRouter_Param_def WithContext_def WithValue_def Value_def)
  have mock_none: "MockRouter_Param r name = []" if "Value (Ctx r) MockParamsKey = None"
    using that by (simp add: MockRouter_Param_def)
  have fiber_none: "FiberAdapter_Param None name = []"
    "Value (Ctx r) (FiberCtxKey name) = None \<longrightarrow> FiberAdapter_Param (Some r) name = []"
    by (simp_all add: FiberAdapter_Param_def)
  have closure: "FiberAdapter_closure (h_echo (\<lambda>r. FiberAdapter_Param (Some r)) name) order c
          = (c\<lparr>fc_Response := Write (if name \<in> set names then fc_Params c name else []) NewRecorder\<rparr>,
             Normal)"
    if "fc_Route c = Some names" "set order = set names"
      "\<forall>k. Value (Ctx (fc_Request c)) (FiberCtxKey k) = None"
  proof -
    let ?params = "closure_params c"
    have p: "?params = (\<lambda>k. if k \<in> set names then Some (fc_Params c k) else None)"
      using that(1) by (simp add: closure_params_def fill_params_eq)
    then have "set order = dom ?params"
      using that(2) by (auto simp: dom_def)
    from FiberAdapter_Param_injected [OF this that(3)]
    have "FiberAdapter_Param
            (Some (WithContext (fc_Request c) (inject_params ?params order (Ctx (fc_Request c))))) name
          = (if name \<in> set names then fc_Params c name else [])"
      by (simp add: p)
    then show ?thesis
      by (simp add: FiberAdapter_closure_def adaptor_HTTPHandlerFunc_def h_echo_def Let_def)
  qed
  show ?thesis
    using mock mock_none FiberAdapter_Param_injected [of order params ctx r name] fiber_none closure
    by blast
qed


theorem Param_returns_binding_witness:
  "MockRouter_Param
      (WithContext (GET_request ''/api/shop/category/books/item/42'' [])
         (WithValue [] MockParamsKey (ParamsMap [''cat'' \<mapsto> ''books'', ''id'' \<mapsto> ''42''])))
      ''cat'' = ''books''
   \<and> MockRouter_Param (GET_request ''/api/shop/category/books/item/42'' []) ''cat'' = []
   \<and> FiberAdapter_Param
        (Some (WithContext (GET_request ''/api/shop/category/books/item/42'' [])
           (inject_params [''cat'' \<mapsto> ''books'', ''id'' \<mapsto> ''42''] [''id'', ''cat''] [])))
        ''id'' = ''42''
   \<and> FiberAdapter_Param (Some (GET_request ''/api/shop/category/books/item/42'' [])) ''id'' = []
   \<and> FiberAdapter_closure (h_echo (\<lambda>r. FiberAdapter_Param (Some r)) ''id'') [''id'', ''cat'']
        \<lparr>fc_Request = GET_request ''/api/shop/category/books/item/42'' [],
         fc_Route = Some [''cat'', ''id''],
         fc_Params = (\<lambda>k. if k = ''cat'' then ''books'' else if k = ''id'' then ''42'' else []),
         fc_Response = NewRecorder\<rparr>
       = (\<lparr>fc_Request = GET_request ''/api/shop/category/books/item/42'' [],
          fc_Route = Some [''cat'', ''id''],
          fc_Params = (\<lambda>k. if k = ''cat'' then ''books'' else if k = ''id'' then ''42'' else []),
          fc_Response = \<lparr>Code = 200, HeaderMap = [], Body = ''42'', wroteHeader = True\<rparr>\<rparr>, Normal)"
proof -
  let ?r = "GET_request ''/api/shop/category/books/item/42'' []"
  let ?params = "[''cat'' \<mapsto> ''books'', ''id'' \<mapsto> ''42'']"
  let ?c = "\<lparr>fc_Request = ?r, fc_Route = Some [''cat'', ''id''],
         fc_Params = (\<lambda>k. if k = ''cat'' then ''books'' else if k = ''id'' then ''42'' else []),
         fc_Response = NewRecorder\<rparr>"
  have o: "set [''id'', ''cat''] = dom ?params" "set [''id'', ''cat''] = set [''cat'', ''id'']"
    by auto
  have e: "\<forall>k. Value (Ctx ?r) (FiberCtxKey k) = None" "\<forall>k. Value [] (FiberCtxKey k) = None"
    "Value (Ctx ?r) MockParamsKey = None" "Value (Ctx ?r) (FiberCtxKey ''id'') = None"
    by (simp_all add: GET_request_def Value_def)
  show ?thesis
    using Param_returns_binding [of ?r "[]" ?params "''cat''" "[''id'', ''cat'']" ?c "[''cat'', ''id'']"]
      Param_returns_binding [of ?r "[]" ?params "''id''" "[''id'', ''cat'']" ?c "[''cat'', ''id'']"]
      o e
    by (simp add: NewRecorder_def Write_def WriteHeader_def)
qed


section \<open>The order of the fallback loop\<close>

lemma fallback_scan_find:
  "fallback_scan H order r w =
     (case find (\<lambda>k. k \<in> dom H \<and> dynamic_match r k) order of
        None \<Rightarrow> NotFound r w
      | Some k \<Rightarrow> (case H k of None \<Rightarrow> NotFound r w | Some h \<Rightarrow> h r w))"
  by (induction order) (auto simp: dynamic_match_def Let_def split: option.splits)

lemma find_unique:
  assumes "\<And>x y. P x \<Longrightarrow> P y \<Longrightarrow> x = y" "set xs = set ys"
  shows "find P xs = find P ys"
proof (cases "find P xs")
  case None
  then have "\<not> (\<exists>x\<in>set ys. P x)" using assms(2) by (auto simp: find_None_iff)
  then have "find P ys = None" by (simp add: find_None_iff)
  with None show ?thesis by simp
next
  case (Some k)
  then have k: "k \<in> set ys" "P k"
    using assms(2) by (auto simp: find_Some_iff)
  then obtain k' where k': "find P ys = Some k'"
    by (cases "find P ys") (auto simp: find_None_iff)
  then have "P k'" by (auto simp: find_Some_iff)
  then show ?thesis using Some k k' assms(1) by auto
qed

text \<open>
  C6, as the code has it. \<open>ServeHTTP\<close> runs the handler stored under the request's
  key when there is one, and otherwise the handler of the first key, in the order in
  which the loop over the map visits the keys, that passes the loop's test (404 when
  none does). For two orders of the same map the outcome is the same when the request's
  key is in the map or when at most one key of the map passes the test. The map keeps
  no trace of the order of registration.
\<close>

theorem ServeHTTP_order:
  "MockRouter_ServeHTTP s order r w =
     (case Handlers s (Method r @ '' '' @ URL_Path r) of
        Some h \<Rightarrow> h r w
      | None \<Rightarrow>
          (case find (\<lambda>k. k \<in> dom (Handlers s) \<and> dynamic_match r k) order of
             None \<Rightarrow> NotFound r w
           | Some k \<Rightarrow> (case Handlers s k of None \<Rightarrow> NotFound r w | Some h \<Rightarrow> h r w)))
   \<and> (set order = dom (Handlers s) \<and> set order' = dom (Handlers s)
        \<and> (Handlers s (Method r @ '' '' @ URL_Path r) \<noteq> None
            \<or> (\<forall>k k'. k \<in> dom (Handlers s) \<and> dynamic_match r k
                     \<and> k' \<in> dom (Handlers s) \<and> dynamic_match r k' \<longrightarrow> k = k'))
      \<longrightarrow> MockRouter_ServeHTTP s order r w = MockRouter_ServeHTTP s order' r w)"
proof -
  have first: "MockRouter_ServeHTTP s order r w =
     (case Handlers s (Method r @ '' '' @ URL_Path r) of
        Some h \<Rightarrow> h r w
      | None \<Rightarrow>
          (case find (\<lambda>k. k \<in> dom (Handlers s) \<and> dynamic_match r k) order of
             None \<Rightarrow> NotFound r w
           | Some k \<Rightarrow> (case Handlers s k of None \<Rightarrow> NotFound r w | Some h \<Rightarrow> h r w)))" for order
    by (simp add: MockRouter_ServeHTTP_def fallback_scan_find split: option.splits)
  have second: "MockRouter_ServeHTTP s order r w = MockRouter_ServeHTTP s order' r w"
    if "set order = dom (Handlers s)" "set order' = dom (Handlers s)"
      "Handlers s (Method r @ '' '' @ URL_Path r) \<noteq> None
       \<or> (\<forall>k k'. k \<in> dom (Handlers s) \<and> dynamic_match r k
               \<and> k' \<in> dom (Handlers s) \<and> dynamic_match r k' \<longrightarrow> k = k')"
  proof (cases "Handlers s (Method r @ '' '' @ URL_Path r)")
    case (Some h)
    then show ?thesis by (simp add: MockRouter_ServeHTTP_def)
  next
    case None
    with that(3) have "\<And>x y. x \<in> dom (Handlers s) \<and> dynamic_match r x \<Longrightarrow>
        y \<in> dom (Handlers s) \<and> dynamic_match r y \<Longrightarrow> x = y"
      by blast
    then have "find (\<lambda>k. k \<in> dom (Handlers s) \<and> dynamic_match r k) order
        = find (\<lambda>k. k \<in> dom (Handlers s) \<and> dynamic_match r k) order'"
      using that(1,2) by (intro find_unique) auto
    then show ?thesis using None by (simp add: first)
  qed
  from first second show ?thesis by blast
qed


theorem ServeHTTP_order_witness:
  "\<exists>s. run_ops (snd NewMockRouter) setup_routes = Some s
     \<and> MockRouter_ServeHTTP s [''GET /files/:name'', ''GET /files/config'', ''GET /protected/dashboard'']
          (GET_request ''/files/report.pdf'' []) NewRecorder
       = MockRouter_ServeHTTP s [''GET /protected/dashboard'', ''GET /files/config'', ''GET /files/:name'']
          (GET_request ''/files/report.pdf'' []) NewRecorder
     \<and> MockRouter_ServeHTTP s [''GET /files/:name'', ''GET /files/config'', ''GET /protected/dashboard'']
          (GET_request ''/files/report.pdf'' []) NewRecorder
       = (\<lparr>Code = 201, HeaderMap = [(''X-Powered-By'', ''Transwarp'')], Body = ''created_'',
            wroteHeader = True\<rparr>, Normal)"
proof -
  obtain s where s: "run_ops (snd NewMockRouter) setup_routes = Some s"
    and H: "Handlers s = [''GET /protected/dashboard'' \<mapsto> mw_of mw_powered (mw_of mw_firewall h_dashboard),
                        ''GET /files/config'' \<mapsto> mw_of mw_powered h_file_config,
                        ''GET /files/:name'' \<mapsto> mw_of mw_powered (h_files_name MockRouter_Param)]"
    using setup_routes_runs by blast
  let ?r = "GET_request ''/files/report.pdf'' []"
  let ?o1 = "[''GET /files/:name'', ''GET /files/config'', ''GET /protected/dashboard'']"
  let ?o2 = "[''GET /protected/dashboard'', ''GET /files/config'', ''GET /files/:name'']"
  have d: "dom (Handlers s) = {''GET /files/:name'', ''GET /files/config'', ''GET /protected/dashboard''}"
    by (simp add: H)
  have dm: "dynamic_match ?r ''GET /files/:name''" "\<not> dynamic_match ?r ''GET /files/config''"
    "\<not> dynamic_match ?r ''GET /protected/dashboard''"
    by (simp_all add: dynamic_match_def GET_request_def SplitN_2 HasPrefix_def)
  have o: "set ?o1 = dom (Handlers s)" "set ?o2 = dom (Handlers s)"
    unfolding d by (simp_all add: insert_commute)
  have u: "\<forall>k k'. k \<in> dom (Handlers s) \<and> dynamic_match ?r k
                     \<and> k' \<in> dom (Handlers s) \<and> dynamic_match ?r k' \<longrightarrow> k = k'"
    unfolding d using dm by blast
  have same: "MockRouter_ServeHTTP s ?o1 ?r NewRecorder = MockRouter_ServeHTTP s ?o2 ?r NewRecorder"
    using ServeHTTP_order [of s ?o1 ?r NewRecorder ?o2] o u by blast
  have miss: "Handlers s (Method ?r @ '' '' @ URL_Path ?r) = None"
    by (simp add: H GET_request_def)
  have f: "find (\<lambda>k. k \<in> dom (Handlers s) \<and> dynamic_match ?r k) ?o1 = Some ''GET /files/:name''"
    unfolding d using dm by simp
  have h: "Handlers s ''GET /files/:name'' = Some (mw_of mw_powered (h_files_name MockRouter_Param))"
    by (simp add: H)
  have v: "mw_of mw_powered (h_files_name MockRouter_Param) ?r NewRecorder
      = (\<lparr>Code = 201, HeaderMap = [(''X-Powered-By'', ''Transwarp'')], Body = ''created_'',
            wroteHeader = True\<rparr>, Normal)"
    by (simp add: wrap_powered h_files_name_def MockRouter_Param_def Value_def WithValue_def
          WithContext_def GET_request_def NewRecorder_def Header_Set_def WriteHeader_def Write_def)
  have val: "MockRouter_ServeHTTP s ?o1 ?r NewRecorder
      = (\<lparr>Code = 201, HeaderMap = [(''X-Powered-By'', ''Transwarp'')], Body = ''created_'',
            wroteHeader = True\<rparr>, Normal)"
    using conjunct1 [OF ServeHTTP_order [of s ?o1 ?r NewRecorder ?o2]]
    by (simp only: miss f h v option.case)
  show ?thesis
    using s same val by blast
qed

text \<open>
  \<open>/users/:id\<close> registered first and \<open>/users/:name/posts\<close> second: for the path
  \<open>/users/42\<close> both pass the loop's test, and the loop answers with the one its
  order visits first, the first registered in one order and the second in the other.
\<close>

theorem ServeHTTP_order_counterexample:
  "(case run_ops (snd NewMockRouter)
           [OpRegister 0 ''GET'' ''/users/:id'' h_A,
            OpRegister 0 ''GET'' ''/users/:name/posts'' h_B] of
      None \<Rightarrow> False
    | Some s \<Rightarrow>
        dom (Handlers s) = {''GET /users/:name/posts'', ''GET /users/:id''}
      \<and> Body (fst (MockRouter_ServeHTTP s [''GET /users/:id'', ''GET /users/:name/posts'']
                     (GET_request ''/users/42'' []) NewRecorder)) = ''A''
      \<and> Body (fst (MockRouter_ServeHTTP s [''GET /users/:name/posts'', ''GET /users/:id'']
                     (GET_request ''/users/42'' []) NewRecorder)) = ''B'')"
  by (simp add: MockRouter_register_def NewMockRouter_simps Let_def stack_def slice_elems_def route_key_def
        MockRouter_ServeHTTP_def GET_request_def SplitN_2 HasPrefix_def h_A_def h_B_def
        Write_def WriteHeader_def NewRecorder_def)



section \<open>Panics\<close>

lemma FiberAdapter_closure_cases:
  "FiberAdapter_closure composed order c =
     (case composed (closure_request order c) NewRecorder of
        (w, Normal) \<Rightarrow> (c\<lparr>fc_Response := w\<rparr>, Normal)
      | (w, Panic v) \<Rightarrow>
          (c\<lparr>fc_Response := (fc_Response c)\<lparr>Code := 500, Body := ''Panic Detected''\<rparr>\<rparr>, Normal))"
  by (simp add: FiberAdapter_closure_def adaptor_HTTPHandlerFunc_def closure_request_def Let_def
        fc_Status_def fc_SendString_def split: prod.splits exit.splits)

text \<open>
  C7, as the code has it. The closure that \<open>FiberAdapter.handle\<close> registers never
  panics: when the composed chain (the handler inside the adapter's middlewares) panics,
  the response has the status 500 and the body \<open>Panic Detected\<close>, and when it returns,
  the response is the one the chain wrote. \<open>MockRouter.ServeHTTP\<close> has no recovery:
  its outcome is the outcome of the handler it selects, a panic included.
\<close>

theorem Fiber_recovers_panics:
  "snd (snd (snd (FiberAdapter_handle mws method path h)) order c) = Normal
   \<and> (snd (wrap_loop mws (length mws) h (closure_request order c) NewRecorder) = Panic v \<longrightarrow>
        Code (fc_Response (fst (snd (snd (FiberAdapter_handle mws method path h)) order c))) = 500
      \<and> Body (fc_Response (fst (snd (snd (FiberAdapter_handle mws method path h)) order c)))
          = ''Panic Detected'')
   \<and> (snd (wrap_loop mws (length mws) h (closure_request order c) NewRecorder) = Normal \<longrightarrow>
        fc_Response (fst (snd (snd (FiberAdapter_handle mws method path h)) order c))
          = fst (wrap_loop mws (length mws) h (closure_request order c) NewRecorder))
   \<and> (Handlers s (Method r @ '' '' @ URL_Path r) = Some g \<longrightarrow>
        MockRouter_ServeHTTP s order' r w = g r w)"
  by (auto simp: FiberAdapter_handle_def FiberAdapter_closure_cases MockRouter_ServeHTTP_def Let_def
        split: prod.splits exit.splits)

theorem Fiber_recovers_panics_witness:
  "snd (snd (snd (FiberAdapter_handle [mw_of mw_powered] ''GET'' ''/boom'' h_boom)) []
        \<lparr>fc_Request = GET_request ''/boom'' [], fc_Route = Some [], fc_Params = (\<lambda>k. []),
         fc_Response = NewRecorder\<rparr>) = Normal
   \<and> fc_Response (fst (snd (snd (FiberAdapter_handle [mw_of mw_powered] ''GET'' ''/boom'' h_boom)) []
        \<lparr>fc_Request = GET_request ''/boom'' [], fc_Route = Some [], fc_Params = (\<lambda>k. []),
         fc_Response = NewRecorder\<rparr>))
       = \<lparr>Code = 500, HeaderMap = [], Body = ''Panic Detected'', wroteHeader = False\<rparr>
   \<and> fc_Response (fst (snd (snd (FiberAdapter_handle [mw_of mw_powered] ''GET'' ''/config'' h_file_config)) []
        \<lparr>fc_Request = GET_request ''/config'' [], fc_Route = Some [], fc_Params = (\<lambda>k. []),
         fc_Response = NewRecorder\<rparr>))
       = \<lparr>Code = 200, HeaderMap = [(''X-Powered-By'', ''Transwarp'')], Body = ''file_config'',
           wroteHeader = True\<rparr>"
proof -
  let ?c = "\<lparr>fc_Request = GET_request ''/boom'' [], fc_Route = Some [], fc_Params = (\<lambda>k. []),
         fc_Response = NewRecorder\<rparr>"
  let ?c2 = "\<lparr>fc_Request = GET_request ''/config'' [], fc_Route = Some [], fc_Params = (\<lambda>k. []),
         fc_Response = NewRecorder\<rparr>"
  have p: "snd (wrap_loop [mw_of mw_powered] (length [mw_of mw_powered]) h_boom
             (closure_request [] ?c) NewRecorder) = Panic ''boom''"
    by (simp add: wrap_powered h_boom_def)
  have n: "snd (wrap_loop [mw_of mw_powered] (length [mw_of mw_powered]) h_file_config
             (closure_request [] ?c2) NewRecorder) = Normal"
    by (simp add: wrap_powered h_file_config_def)
  have v: "fst (wrap_loop [mw_of mw_powered] (length [mw_of mw_powered]) h_file_config
             (closure_request [] ?c2) NewRecorder)
       = \<lparr>Code = 200, HeaderMap = [(''X-Powered-By'', ''Transwarp'')], Body = ''file_config'',
           wroteHeader = True\<rparr>"
    by (simp add: wrap_powered h_file_config_def NewRecorder_def Header_Set_def WriteHeader_def
          Write_def)
  have r: "fc_Response (fst (snd (snd (FiberAdapter_handle [mw_of mw_powered] ''GET'' ''/boom'' h_boom)) [] ?c))
      = \<lparr>Code = 500, HeaderMap = [], Body = ''Panic Detected'', wroteHeader = False\<rparr>"
    by (simp add: FiberAdapter_handle_def FiberAdapter_closure_cases wrap_powered h_boom_def
          NewRecorder_def)
  show ?thesis
    using Fiber_recovers_panics [of "[mw_of mw_powered]" "''GET''" "''/boom''" h_boom "[]" ?c "''boom''"]
      Fiber_recovers_panics [of "[mw_of mw_powered]" "''GET''" "''/config''" h_file_config "[]" ?c2]
      p n v r
    by simp
qed

text \<open>
  A handler that panics, registered on the mock router: the panic leaves
  \<open>ServeHTTP\<close>, and the response is not a 500.
\<close>

theorem Mock_panic_counterexample:
  "(case run_ops (snd NewMockRouter) [OpRegister 0 ''GET'' ''/boom'' h_boom] of
      None \<Rightarrow> False
    | Some s \<Rightarrow>
        MockRouter_ServeHTTP s [''GET /boom''] (GET_request ''/boom'' []) NewRecorder
          = (NewRecorder, Panic ''boom''))"
  by (simp add: MockRouter_register_def NewMockRouter_simps Let_def stack_def slice_elems_def route_key_def
        MockRouter_ServeHTTP_def GET_request_def h_boom_def)


section \<open>Group prefixes\<close>


























section \<open>The factory\<close>

lemma run_inits_map: "run_inits registry inits = registry ++ map_of (rev inits)"
proof (induction inits arbitrary: registry)
  case Nil
  show ?case by simp
next
  case (Cons dc inits)
  obtain d c where dc: "dc = (d, c)" by (cases dc)
  show ?case
    using Cons dc by (simp add: Register_def map_add_def fun_eq_iff split: option.splits)
qed

text \<open>
  C9. With the registry that the \<^verbatim>\<open>init\<close> functions of the compiled driver
  files leave, \<open>New\<close> panics for a driver that none of them registered, with a
  message that names the driver, and returns what the registered constructor returns for
  a driver that one of them registered (the last registration, when there are several).
  No other driver's constructor is ever called in its place.
\<close>

theorem New_fails_loudly:
  "(Driver cfg \<notin> fst ` set inits \<longrightarrow>
      New (run_inits Map.empty inits) cfg = Panics (not_available (Driver cfg)))
   \<and> (map_of (rev inits) (Driver cfg) = Some c \<longrightarrow>
      New (run_inits Map.empty inits) cfg = c ())
   \<and> (registry (Driver cfg) = None \<longrightarrow> New registry cfg = Panics (not_available (Driver cfg)))
   \<and> New (Register registry d c) \<lparr>Driver = d\<rparr> = c ()
   \<and> (\<exists>before after. not_available d = before @ d @ after)"
proof -
  have absent: "map_of (rev inits) (Driver cfg) = None" if "Driver cfg \<notin> fst ` set inits"
    using that by (simp add: map_of_eq_None_iff)
  have named: "\<exists>before after. not_available d = before @ d @ after"
    unfolding not_available_def by (intro exI [of _ "''Transwarp Error: Driver '' @ [CHR 0x27]"] exI) simp
  show ?thesis
    using absent named by (auto simp: New_def run_inits_map Register_def)
qed

theorem New_fails_loudly_witness:
  "New (run_inits Map.empty [(''chi'', \<lambda>_. Returns (1::nat)), (''native'', \<lambda>_. Returns 2)]) \<lparr>Driver = ''fiber''\<rparr>
     = Panics (not_available ''fiber'')
   \<and> New (run_inits Map.empty [(''chi'', \<lambda>_. Returns (1::nat)), (''native'', \<lambda>_. Returns 2)]) \<lparr>Driver = ''native''\<rparr>
     = Returns 2
   \<and> New (Map.empty :: nat registry) \<lparr>Driver = ''gin''\<rparr> = Panics (not_available ''gin'')"
  using New_fails_loudly [of "\<lparr>Driver = ''fiber''\<rparr>" "[(''chi'', \<lambda>_. Returns (1::nat)), (''native'', \<lambda>_. Returns 2)]" "\<lambda>_. Returns 2" Map.empty]
    New_fails_loudly [of "\<lparr>Driver = ''native''\<rparr>" "[(''chi'', \<lambda>_. Returns (1::nat)), (''native'', \<lambda>_. Returns 2)]" "\<lambda>_. Returns 2" Map.empty]
    New_fails_loudly [of "\<lparr>Driver = ''gin''\<rparr>" "[]" "\<lambda>_. Returns (2::nat)" Map.empty]
  by simp


section \<open>NativeAdapter.transformPattern\<close>

lemma takeWhile_stop: "\<not> P y \<Longrightarrow> takeWhile P (xs @ y # ys) = takeWhile P xs"
  by (induction xs) auto

lemma dropWhile_stop: "\<not> P y \<Longrightarrow> dropWhile P (xs @ y # ys) = dropWhile P xs @ y # ys"
  by (induction xs) auto

lemma not_word_colon [simp]: "\<not> is_word CHR '':''"
  and not_word_slash [simp]: "\<not> is_word CHR ''/''"
  and not_word_lbrace [simp]: "\<not> is_word CHR ''{''"
  and not_word_rbrace [simp]: "\<not> is_word CHR ''}''"
  by (simp_all add: is_word_def)

lemma paramReplace_append:
  "\<not> is_word y \<Longrightarrow> paramReplace (xs @ y # ys) = paramReplace xs @ paramReplace (y # ys)"
proof (induction xs rule: paramReplace.induct)
  case 1
  show ?case by simp
next
  case (2 c cs)
  show ?case
  proof (cases "c = CHR '':'' \<and> takeWhile is_word cs \<noteq> []")
    case True
    with 2 show ?thesis
      by (simp add: takeWhile_stop dropWhile_stop)
  next
    case False
    with 2 show ?thesis
      by (simp add: takeWhile_stop dropWhile_stop)
  qed
qed

lemma paramReplace_no_slash: "CHR ''/'' \<notin> set s \<Longrightarrow> CHR ''/'' \<notin> set (paramReplace s)"
proof (induction s rule: paramReplace.induct)
  case 1
  show ?case by simp
next
  case (2 c cs)
  have "CHR ''/'' \<notin> set (takeWhile is_word cs)"
    using 2(3) by (auto dest: set_takeWhileD)
  moreover have "CHR ''/'' \<notin> set (dropWhile is_word cs)"
    using 2(3) by (auto dest: set_dropWhileD)
  ultimately show ?case using 2 by auto
qed

lemma paramReplace_nonempty: "s \<noteq> [] \<Longrightarrow> paramReplace s \<noteq> []"
  by (cases s) auto

lemma paramReplace_param:
  assumes "name \<noteq> []" "\<forall>c\<in>set name. is_word c" "t = [] \<or> \<not> is_word (hd t)"
  shows "paramReplace (CHR '':'' # name @ t) = ''{'' @ name @ ''}'' @ paramReplace t"
proof -
  have tw: "takeWhile is_word (name @ t) = name"
    using assms by (cases t) (auto simp: takeWhile_stop)
  have dw: "dropWhile is_word (name @ t) = t"
    using assms by (cases t) (auto simp: dropWhile_stop dropWhile_append)
  show ?thesis using assms(1) by (simp add: tw dw)
qed


lemma paramReplace_hd_slash:
  "rest = [] \<or> hd rest = CHR ''/'' \<Longrightarrow> paramReplace rest = [] \<or> hd (paramReplace rest) = CHR ''/''"
  by (cases rest) auto

lemma paramReplace_no_colon: "CHR '':'' \<notin> set s \<Longrightarrow> paramReplace s = s"
  by (induction s rule: paramReplace.induct) auto

lemma suffixClean_pass: "CHR ''}'' \<notin> set xs \<Longrightarrow> suffixClean (xs @ ys) = xs @ suffixClean ys"
  by (induction xs) auto

lemma takeWhile_not_slash_seg:
  "CHR ''/'' \<notin> set xs \<Longrightarrow> r = [] \<or> hd r = CHR ''/'' \<Longrightarrow> takeWhile not_slash (xs @ r) = xs"
  by (cases r) (auto simp: not_slash_def takeWhile_stop takeWhile_eq_all_conv)

lemma dropWhile_not_slash_seg:
  "CHR ''/'' \<notin> set xs \<Longrightarrow> r = [] \<or> hd r = CHR ''/'' \<Longrightarrow> dropWhile not_slash (xs @ r) = r"
  by (cases r) (auto simp: not_slash_def dropWhile_stop dropWhile_eq_Nil_conv)

lemma suffixClean_brace_seg:
  assumes "CHR ''/'' \<notin> set xs" "r = [] \<or> hd r = CHR ''/''"
  shows "suffixClean (CHR ''}'' # xs @ r) = CHR ''}'' # suffixClean r"
proof (cases "xs = []")
  case True
  then show ?thesis using assms(2) by (cases r) (auto simp: not_slash_def)
next
  case False
  then show ?thesis
    using takeWhile_not_slash_seg [OF assms] dropWhile_not_slash_seg [OF assms] by simp
qed

lemma suffixClean_drop:
  assumes nm: "CHR ''}'' \<notin> set name" "CHR ''/'' \<notin> set name"
    and S: "CHR ''/'' \<notin> set S"
    and R: "R = [] \<or> hd R = CHR ''/''"
  shows "suffixClean (A @ ''{'' @ name @ ''}'' @ S @ R) = suffixClean (A @ ''{'' @ name @ ''}'' @ R)"
proof (induction A rule: length_induct)
  case (1 A)
  show ?case
  proof (cases A)
    case Nil
    have "suffixClean ((''{'' @ name) @ CHR ''}'' # S @ R) = (''{'' @ name) @ suffixClean (CHR ''}'' # S @ R)"
      using nm by (intro suffixClean_pass) simp
    moreover have "suffixClean ((''{'' @ name) @ CHR ''}'' # [] @ R) = (''{'' @ name) @ suffixClean (CHR ''}'' # [] @ R)"
      using nm by (intro suffixClean_pass) simp
    moreover have "suffixClean (CHR ''}'' # S @ R) = CHR ''}'' # suffixClean R"
      using S R by (rule suffixClean_brace_seg)
    moreover have "suffixClean (CHR ''}'' # [] @ R) = CHR ''}'' # suffixClean R"
      using R by (intro suffixClean_brace_seg) simp_all
    ultimately show ?thesis using Nil by simp
  next
    case (Cons c cs)
    let ?X = "''{'' @ name @ ''}'' @ S @ R" and ?Y = "''{'' @ name @ ''}'' @ R"
    have ih: "length B \<le> length cs \<Longrightarrow> suffixClean (B @ ?X) = suffixClean (B @ ?Y)" for B
      using 1 Cons by simp
    show ?thesis
    proof (cases "c = CHR ''}''")
      case False
      then show ?thesis using Cons ih [of cs] by simp
    next
      case brace: True
      show ?thesis
      proof (cases "CHR ''/'' \<in> set cs")
        case True
        then have tw: "takeWhile not_slash (cs @ Z) = takeWhile not_slash cs"
          and dw: "dropWhile not_slash (cs @ Z) = dropWhile not_slash cs @ Z" for Z
          by (auto simp: not_slash_def intro: takeWhile_append1 dropWhile_append1)
        have "length (dropWhile not_slash cs) \<le> length cs"
          by (rule length_dropWhile_le)
        from ih [OF this] ih [of cs] show ?thesis
          using Cons brace by (simp add: tw dw)
      next
        case False
        have X: "CHR ''/'' \<notin> set (cs @ ''{'' @ name @ ''}'' @ S)"
          and Y: "CHR ''/'' \<notin> set (cs @ ''{'' @ name @ ''}'')"
          using False nm S by auto
        have "suffixClean (CHR ''}'' # (cs @ ''{'' @ name @ ''}'' @ S) @ R) = CHR ''}'' # suffixClean R"
          using X R by (rule suffixClean_brace_seg)
        moreover have "suffixClean (CHR ''}'' # (cs @ ''{'' @ name @ ''}'') @ R) = CHR ''}'' # suffixClean R"
          using Y R by (rule suffixClean_brace_seg)
        ultimately show ?thesis using Cons brace by simp
      qed
    qed
  qed
qed

lemma word_not_special:
  "\<forall>c\<in>set name. is_word c \<Longrightarrow> CHR ''}'' \<notin> set name \<and> CHR ''/'' \<notin> set name"
  by auto

text \<open>
  C10. A template in which a parameter \<open>:name\<close> is followed, inside its segment, by
  further text \<open>suffix\<close> (not starting with a name character, so that it is not part
  of the name): \<open>transformPattern\<close> gives the pattern of the template without the
  suffix, and after a prefix with no parameter and no brace that pattern ends with
  \<open>{name}\<close>. The suffix takes no part in what is registered.
\<close>

theorem transformPattern_drops_suffix:
  assumes name: "name \<noteq> []" "\<forall>c\<in>set name. is_word c"
    and suffix: "suffix \<noteq> []" "\<not> is_word (hd suffix)" "CHR ''/'' \<notin> set suffix"
    and rest: "rest = [] \<or> hd rest = CHR ''/''"
  shows "transformPattern (pre @ '':'' @ name @ suffix @ rest)
           = transformPattern (pre @ '':'' @ name @ rest)
         \<and> (CHR '':'' \<notin> set pre \<and> CHR ''}'' \<notin> set pre \<and> rest = [] \<longrightarrow>
              transformPattern (pre @ '':'' @ name @ suffix) = pre @ ''{'' @ name @ ''}'')"
proof -
  let ?A = "paramReplace pre" and ?S = "paramReplace suffix" and ?R = "paramReplace rest"
  have split: "paramReplace (suffix @ rest) = ?S @ ?R"
    using rest by (cases rest) (auto simp: paramReplace_append simp del: paramReplace.simps(2))
  have "paramReplace (CHR '':'' # name @ suffix @ rest) = ''{'' @ name @ ''}'' @ paramReplace (suffix @ rest)"
    using name suffix by (intro paramReplace_param) simp_all
  then have L: "paramReplace (pre @ '':'' @ name @ suffix @ rest) = ?A @ ''{'' @ name @ ''}'' @ ?S @ ?R"
    using paramReplace_append [of "CHR '':''" pre "name @ suffix @ rest"] split by simp
  have "paramReplace (CHR '':'' # name @ rest) = ''{'' @ name @ ''}'' @ ?R"
    using name rest by (intro paramReplace_param) auto
  then have Rr: "paramReplace (pre @ '':'' @ name @ rest) = ?A @ ''{'' @ name @ ''}'' @ ?R"
    using paramReplace_append [of "CHR '':''" pre "name @ rest"] by simp
  have nm: "CHR ''}'' \<notin> set name" "CHR ''/'' \<notin> set name"
    using name(2) by auto
  have S: "CHR ''/'' \<notin> set ?S"
    using suffix(3) by (rule paramReplace_no_slash)
  have R: "?R = [] \<or> hd ?R = CHR ''/''"
    using rest by (rule paramReplace_hd_slash)
  have eq: "suffixClean (?A @ ''{'' @ name @ ''}'' @ ?S @ ?R) = suffixClean (?A @ ''{'' @ name @ ''}'' @ ?R)"
    using nm S R by (rule suffixClean_drop)
  have first: "transformPattern (pre @ '':'' @ name @ suffix @ rest) = transformPattern (pre @ '':'' @ name @ rest)"
    unfolding transformPattern_def L Rr using eq by simp
  have second: "transformPattern (pre @ '':'' @ name @ suffix) = pre @ ''{'' @ name @ ''}''"
    if pre: "CHR '':'' \<notin> set pre" "CHR ''}'' \<notin> set pre" and "rest = []"
  proof -
    have A: "?A = pre" using pre(1) by (rule paramReplace_no_colon)
    have "suffixClean ((pre @ ''{'' @ name) @ CHR ''}'' # ?S @ []) = (pre @ ''{'' @ name) @ suffixClean (CHR ''}'' # ?S @ [])"
      using pre(2) nm by (intro suffixClean_pass) simp
    moreover have "suffixClean (CHR ''}'' # ?S @ []) = CHR ''}'' # suffixClean []"
      using S by (intro suffixClean_brace_seg) simp_all
    ultimately have "suffixClean (pre @ ''{'' @ name @ ''}'' @ ?S) = pre @ ''{'' @ name @ ''}''"
      by simp
    then show ?thesis
      unfolding transformPattern_def using L [unfolded \<open>rest = []\<close>] A by simp
  qed
  from first second show ?thesis by blast
qed

theorem transformPattern_drops_suffix_witness:
  "transformPattern ''/v1/product/:id.json'' = ''/v1/product/{id}''
   \<and> transformPattern ''/v1/product/:id.json'' = transformPattern ''/v1/product/:id''"
  using transformPattern_drops_suffix [of "''id''" "''.json''" "[]" "''/v1/product/''"]
  by (simp add: is_word_def transformPattern_def not_slash_def)


end
